theory Spec2Isabelle
  imports Complex_Main
begin

section \<open>Python values used by \<open>gen_model_answer.py\<close>\<close>

text \<open>
  Exceptions are values. The handler of \<open>get_model_answers\<close> is
  \<open>except RuntimeError\<close>, so the only distinction the script itself makes is
  whether an exception object is an instance of \<open>RuntimeError\<close> (the class or any
  class derived from it) or not. \<open>RuntimeError msg\<close> stands for the former;
  the other constructors are classes that do not derive from \<open>RuntimeError\<close>.
\<close>

datatype pyexc =
    RuntimeError string
  | KeyError string
  | ValueError string
  | IndexError string
  | AssertionError
  | ZeroDivisionError
  | OSError string
  | OtherError string

type_synonym 'a result = "pyexc + 'a"

subsection \<open>\<open>str.find\<close> and slicing\<close>

text \<open>
  \<open>s.find(sub)\<close>: the lowest index at which \<open>sub\<close> occurs in \<open>s\<close>, or \<open>-1\<close>.
  The empty string occurs at index 0.
\<close>

fun find_index_of :: "string \<Rightarrow> string \<Rightarrow> nat option" where
  "find_index_of [] sub = (if sub = [] then Some 0 else None)"
| "find_index_of (c # cs) sub =
     (if take (length sub) (c # cs) = sub then Some 0
      else map_option Suc (find_index_of cs sub))"

definition py_find :: "string \<Rightarrow> string \<Rightarrow> int" where
  "py_find s sub = (case find_index_of s sub of None \<Rightarrow> - 1 | Some i \<Rightarrow> int i)"

text \<open>\<open>s[:k]\<close> for an index \<open>k\<close>; a negative \<open>k\<close> counts from the end.\<close>

definition slice_to :: "'a list \<Rightarrow> int \<Rightarrow> 'a list" where
  "slice_to xs k = (if k < 0 then take (nat (int (length xs) + k)) xs else take (nat k) xs)"

subsection \<open>Stop-string post-processing (lines 204--215)\<close>

text \<open>
  \<open>conv.stop_str\<close> is \<open>None\<close>, a string, or a list of strings. Truthiness is
  Python's: \<open>None\<close>, the empty string and the empty list are false.
\<close>

datatype stop_str_t = StopNone | StopStr string | StopList "string list"

fun stop_truthy :: "stop_str_t \<Rightarrow> bool" where
  "stop_truthy StopNone = False"
| "stop_truthy (StopStr s) = (s \<noteq> [])"
| "stop_truthy (StopList l) = (l \<noteq> [])"

definition stop_str_indices :: "string list \<Rightarrow> string \<Rightarrow> int list" where
  "stop_str_indices stops output =
     sort (map (py_find output) (filter (\<lambda>stop_str. py_find output stop_str > 0) stops))"

fun apply_stop_str :: "stop_str_t \<Rightarrow> string \<Rightarrow> string" where
  "apply_stop_str (StopList l) output =
     (if stop_truthy (StopList l) then
        (let idx = stop_str_indices l output
         in if length idx > 0 then slice_to output (hd idx) else output)
      else output)"
| "apply_stop_str (StopStr s) output =
     (if stop_truthy (StopStr s) \<and> py_find output s > 0
      then slice_to output (py_find output s) else output)"
| "apply_stop_str StopNone output = output"

subsection \<open>The generation budget (lines 160--164)\<close>

definition context_limit :: int where
  "context_limit = 2048"

definition budget :: "int \<Rightarrow> int \<Rightarrow> int" where
  "budget MAX_NEW_TOKEN num_input_tokens =
     (if num_input_tokens + MAX_NEW_TOKEN > context_limit
      then context_limit - num_input_tokens
      else MAX_NEW_TOKEN)"


subsection \<open>More string and list operations of Python\<close>

definition LF :: char where
  "LF = CHR 0x0A"

definition CR :: char where
  "CR = CHR 0x0D"

text \<open>\<open>xs[i:j]\<close>: negative indices count from the end, both are clamped to the list.\<close>

definition py_slice :: "'a list \<Rightarrow> int \<Rightarrow> int \<Rightarrow> 'a list" where
  "py_slice xs i j =
     (let n = int (length xs);
          a = (if i < 0 then max 0 (i + n) else min i n);
          b = (if j < 0 then max 0 (j + n) else min j n)
      in take (nat (b - a)) (drop (nat a) xs))"

text \<open>
  \<open>range(start, stop, step)\<close> as the list of its values; a zero step raises
  \<open>ValueError\<close>.
\<close>

definition py_range :: "int \<Rightarrow> int \<Rightarrow> int \<Rightarrow> int list result" where
  "py_range start stop step =
     (if step = 0 then Inl (ValueError ''range() arg 3 must not be zero'')
      else if step > 0 then
        Inr (map (\<lambda>k. start + int k * step)
               [0 ..< (if start < stop then nat ((stop - start - 1) div step + 1) else 0)])
      else
        Inr (map (\<lambda>k. start + int k * step)
               [0 ..< (if stop < start then nat ((start - stop - 1) div (- step) + 1) else 0)]))"

text \<open>
  \<open>s.replace(old, new)\<close> replaces the non-overlapping occurrences of \<open>old\<close> from the
  left; the third argument of \<open>replace_scan\<close> counts the characters of a matched
  occurrence still to be skipped. With an empty \<open>old\<close>, \<open>new\<close> is inserted before
  every character and at the end.
\<close>

fun replace_scan :: "string \<Rightarrow> string \<Rightarrow> nat \<Rightarrow> string \<Rightarrow> string" where
  "replace_scan old new k [] = []"
| "replace_scan old new (Suc k) (c # cs) = replace_scan old new k cs"
| "replace_scan old new 0 (c # cs) =
     (if take (length old) (c # cs) = old
      then new @ replace_scan old new (length old - 1) cs
      else c # replace_scan old new 0 cs)"

definition py_replace :: "string \<Rightarrow> string \<Rightarrow> string \<Rightarrow> string" where
  "py_replace s old new =
     (if old = [] then new @ concat (map (\<lambda>c. c # new) s)
      else replace_scan old new 0 s)"

text \<open>\<open>s.replace(old, new, 1)\<close>: the first occurrence only.\<close>

definition py_replace_first :: "string \<Rightarrow> string \<Rightarrow> string \<Rightarrow> string" where
  "py_replace_first s old new =
     (case find_index_of s old of
        None \<Rightarrow> s
      | Some i \<Rightarrow> take i s @ new @ drop (i + length old) s)"

text \<open>
  \<open>s.strip()\<close> removes leading and trailing whitespace, the characters for which
  \<open>str.isspace\<close> holds; below code point 256 these are the following.
\<close>

definition is_space :: "char \<Rightarrow> bool" where
  "is_space c = (c \<in> set [CHR 0x09, CHR 0x0A, CHR 0x0B, CHR 0x0C, CHR 0x0D,
                          CHR 0x1C, CHR 0x1D, CHR 0x1E, CHR 0x1F, CHR 0x20,
                          CHR 0x85, CHR 0xA0])"

definition py_strip :: "string \<Rightarrow> string" where
  "py_strip s = rev (dropWhile is_space (rev (dropWhile is_space s)))"

definition startswith :: "string \<Rightarrow> string \<Rightarrow> bool" where
  "startswith s p = (take (length p) s = p)"

text \<open>
  A Python \<open>dict\<close> as an association list in insertion order: assigning to a key
  that is present replaces its value in place, a new key goes to the end.
\<close>

fun dict_set :: "('k \<times> 'v) list \<Rightarrow> 'k \<Rightarrow> 'v \<Rightarrow> ('k \<times> 'v) list" where
  "dict_set [] k v = [(k, v)]"
| "dict_set ((k', v') # d) k v =
     (if k' = k then (k, v) # d else (k', v') # dict_set d k v)"

definition dict_get :: "('k \<times> 'v) list \<Rightarrow> 'k \<Rightarrow> 'v result" where
  "dict_get d k = (case map_of d k of None \<Rightarrow> Inl (KeyError ''key'') | Some v \<Rightarrow> Inr v)"

text \<open>JSON values, as \<open>json.dumps\<close> receives them.\<close>

datatype json =
    JNull
  | JBool bool
  | JInt int
  | JFloat real
  | JStr string
  | JList "json list"
  | JObj "(string \<times> json) list"

section \<open>\<open>StopAfterEosTextGenerated\<close> (lines 21--49)\<close>

text \<open>
  A two-dimensional tensor is its rows together with \<open>size(1)\<close>, which a tensor has
  also when it has no row. A score is a float; the processor writes only \<open>-inf\<close> and
  \<open>0\<close> and copies every other score.
\<close>

datatype score = NegInf | Score real

record 'a tensor2 =
  size1 :: nat
  rows :: "'a list list"

definition wf_tensor2 :: "'a tensor2 \<Rightarrow> bool" where
  "wf_tensor2 t = list_all (\<lambda>r. length r = size1 t) (rows t)"

record logits_processor =
  base_len :: int
  eos_token_id :: int

definition stop_token_ids_const :: "int list" where
  "stop_token_ids_const = [15501, 281, 926]"

text \<open>
  \<open>forced_eos = torch.full((scores.size(1),), -inf); forced_eos[eos_token_id] = 0\<close>.
  An index outside \<open>-n .. n-1\<close> raises \<open>IndexError\<close>.
\<close>

definition forced_eos_row :: "nat \<Rightarrow> int \<Rightarrow> score list result" where
  "forced_eos_row n eos =
     (if - int n \<le> eos \<and> eos < int n
      then Inr ((replicate n NegInf)[nat (if eos < 0 then eos + int n else eos) := Score 0])
      else Inl (IndexError ''index out of range''))"

text \<open>
  \<open>torch.eq(input_ids[:, -3:], stop_token_ids).all(dim=1)\<close>. The slice keeps the
  last \<open>min 3 size(1)\<close> columns. \<open>torch.eq\<close> broadcasts: a slice of three columns is
  compared position by position, a slice of one column is compared with each of the
  three stop tokens, and any other width does not match the width 3 of
  \<open>stop_token_ids\<close>, which is a \<open>RuntimeError\<close>. The three stop tokens are small
  integers, so the comparison of the integer ids with their float copies is exact.
\<close>

definition stop_sample_ids :: "int tensor2 \<Rightarrow> bool list result" where
  "stop_sample_ids input_ids =
     (let w = min (length stop_token_ids_const) (size1 input_ids);
          tails = map (\<lambda>r. py_slice r (- int (length stop_token_ids_const)) (int (length r)))
                      (rows input_ids)
      in if w = length stop_token_ids_const then
           Inr (map (\<lambda>t. list_all (\<lambda>(a, b). a = b) (zip t stop_token_ids_const)) tails)
         else if w = 1 then
           Inr (map (\<lambda>t. list_all (\<lambda>b. list_all (\<lambda>a. a = b) t) stop_token_ids_const) tails)
         else Inl (RuntimeError ''The size of tensor a must match the size of tensor b''))"

text \<open>
  \<open>__call__\<close>. \<open>scores[stop_sample_ids] = forced_eos\<close> needs a mask with one entry
  per row of \<open>scores\<close> (otherwise \<open>IndexError\<close>) and overwrites the selected rows.
\<close>

definition StopAfterEosTextGenerated_call ::
  "logits_processor \<Rightarrow> int tensor2 \<Rightarrow> score tensor2 \<Rightarrow> score tensor2 result" where
  "StopAfterEosTextGenerated_call self input_ids scores =
     (if int (size1 input_ids) > base_len self then
        (case forced_eos_row (size1 scores) (eos_token_id self) of
           Inl e \<Rightarrow> Inl e
         | Inr forced_eos \<Rightarrow>
             (case stop_sample_ids input_ids of
                Inl e \<Rightarrow> Inl e
              | Inr selected \<Rightarrow>
                  if length selected \<noteq> length (rows scores)
                  then Inl (IndexError ''The shape of the mask does not match'')
                  else Inr (scores\<lparr>rows :=
                         map (\<lambda>(m, r). if m then forced_eos else r) (zip selected (rows scores))\<rparr>)))
      else Inr scores)"

section \<open>\<open>run_eval\<close> (lines 51--100)\<close>

text \<open>
  \<open>questions\<close> is what \<open>load_questions\<close> returned. The result lists, in dispatch
  order, the question lists handed to \<open>get_answers_func\<close> (locally or as remote
  tasks), or is the exception raised before the first dispatch. Python's \<open>%\<close> and
  \<open>//\<close> on integers are \<open>mod\<close> and \<open>div\<close> on \<open>int\<close>, except that a zero divisor
  raises.
\<close>

definition use_ray :: "int \<Rightarrow> int \<Rightarrow> bool" where
  "use_ray num_gpus_per_model num_gpus_total = (num_gpus_total div num_gpus_per_model > 1)"

definition run_eval :: "'q list \<Rightarrow> int \<Rightarrow> int \<Rightarrow> 'q list list result" where
  "run_eval questions num_gpus_per_model num_gpus_total =
     (if num_gpus_per_model = 0 then Inl ZeroDivisionError
      else if num_gpus_total mod num_gpus_per_model \<noteq> 0 then Inl AssertionError
      else if num_gpus_total div num_gpus_per_model = 0 then Inl ZeroDivisionError
      else
        (let chunk_size = int (length questions) div (num_gpus_total div num_gpus_per_model)
         in case py_range 0 (int (length questions)) chunk_size of
              Inl e \<Rightarrow> Inl e
            | Inr starts \<Rightarrow> Inr (map (\<lambda>i. py_slice questions i (i + chunk_size)) starts)))"

section \<open>\<open>reorg_answer_file\<close> (lines 253--264)\<close>

text \<open>
  A text file is its content. Reading in text mode translates \<open>\r\n\<close> and \<open>\r\<close> to
  \<open>\n\<close>; iterating over the file yields the lines, each with its newline, the last
  one without when the content does not end in a newline.
\<close>

fun universal_newlines :: "bool \<Rightarrow> string \<Rightarrow> string" where
  "universal_newlines after_cr [] = []"
| "universal_newlines after_cr (c # cs) =
     (if c = CR then LF # universal_newlines True cs
      else if c = LF \<and> after_cr then universal_newlines False cs
      else c # universal_newlines False cs)"

fun splitlines_keep :: "string \<Rightarrow> string list" where
  "splitlines_keep [] = []"
| "splitlines_keep (c # cs) =
     (if c = LF then [c] # splitlines_keep cs
      else (case splitlines_keep cs of
              [] \<Rightarrow> [[c]]
            | l # ls \<Rightarrow> (c # l) # ls))"

definition read_lines :: "string \<Rightarrow> string list" where
  "read_lines content = splitlines_keep (universal_newlines False content)"

text \<open>
  \<open>json.loads(l)["question_id"]\<close> is the parameter \<open>qid_of\<close>: it raises on a line
  that is not JSON or has no such key. The ids are of one ordered type, so that
  \<open>sorted\<close> can compare them.
\<close>

fun load_answers ::
  "(string \<Rightarrow> 'k result) \<Rightarrow> string list \<Rightarrow> ('k \<times> string) list \<Rightarrow> ('k \<times> string) list result" where
  "load_answers qid_of [] answers = Inr answers"
| "load_answers qid_of (l # ls) answers =
     (case qid_of l of
        Inl e \<Rightarrow> Inl e
      | Inr qid \<Rightarrow> load_answers qid_of ls (dict_set answers qid l))"

fun write_answers :: "('k \<times> string) list \<Rightarrow> 'k list \<Rightarrow> string \<Rightarrow> string result" where
  "write_answers answers [] fout = Inr fout"
| "write_answers answers (qid # qids) fout =
     (case dict_get answers qid of
        Inl e \<Rightarrow> Inl e
      | Inr l \<Rightarrow> write_answers answers qids (fout @ l))"

definition reorg_content :: "(string \<Rightarrow> ('k::linorder) result) \<Rightarrow> string \<Rightarrow> string result" where
  "reorg_content qid_of content =
     (case load_answers qid_of (read_lines content) [] of
        Inl e \<Rightarrow> Inl e
      | Inr answers \<Rightarrow> write_answers answers (sort (map fst answers)) [])"

definition reorg_answer_file ::
  "(string \<Rightarrow> ('k::linorder) result) \<Rightarrow> (string \<rightharpoonup> string) \<Rightarrow> string \<Rightarrow> (string \<rightharpoonup> string) result" where
  "reorg_answer_file qid_of fs answer_file =
     (case fs answer_file of
        None \<Rightarrow> Inl (OSError ''No such file or directory'')
      | Some content \<Rightarrow>
          (case reorg_content qid_of content of
             Inl e \<Rightarrow> Inl e
           | Inr content' \<Rightarrow> Inr (fs(answer_file \<mapsto> content'))))"

section \<open>\<open>get_model_answers\<close> (lines 103--250)\<close>

subsection \<open>Questions, conversation templates and the libraries\<close>

text \<open>
  A question is a record loaded from the question file; a field is \<open>None\<close> when the
  record has no such key, and subscripting it then raises \<open>KeyError\<close>.
\<close>

record question =
  question_id :: "json option"
  category :: "string option"
  turns :: "string list option"

text \<open>The fields of a conversation template that the script reads or writes.\<close>

record conv =
  name :: string
  roles :: "string \<times> string"
  messages :: "(string \<times> string option) list"
  stop_token_ids :: "int list option"
  stop_str :: stop_str_t

definition append_message :: "conv \<Rightarrow> string \<Rightarrow> string option \<Rightarrow> conv" where
  "append_message c role message = c\<lparr>messages := messages c @ [(role, message)]\<rparr>"

text \<open>\<open>self.messages[-1][1] = message\<close>: \<open>IndexError\<close> on an empty list.\<close>

definition update_last_message :: "conv \<Rightarrow> string \<Rightarrow> conv result" where
  "update_last_message c message =
     (if messages c = [] then Inl (IndexError ''list index out of range'')
      else Inr (c\<lparr>messages := butlast (messages c) @ [(fst (last (messages c)), Some message)]\<rparr>))"

record inputs =
  input_ids :: "int list"
  attention_mask :: "int list"

text \<open>The keyword arguments of \<open>model.generate\<close> (lines 172--182).\<close>

record gen_args =
  arg_input_ids :: "int list"
  arg_attention_mask :: "int list"
  bos_token_id :: "int option"
  arg_eos_token_id :: int
  pad_token_id :: "int option"
  do_sample :: bool
  temperature :: real
  max_new_tokens :: int
  logits_processor :: "logits_processor list"

datatype special_token = Tok string | Toks "string list"

text \<open>
  What the script calls and does not define: the model and tokenizer that
  \<open>load_model\<close> returns, the conversation templates, the table of temperatures,
  the random number generator of \<open>torch\<close>, the file system calls, \<open>shortuuid\<close>,
  the clock and \<open>json.dumps\<close>. A call that can raise returns a \<open>result\<close>.
  \<open>generate\<close> reads and advances the state \<open>'r\<close> of the global random number
  generator, which \<open>manual_seed\<close> sets; it returns the first sequence of the batch.
  \<open>uuid k\<close> and \<open>time k\<close> are what the \<open>k\<close>-th call of \<open>shortuuid.uuid()\<close> and of
  \<open>time.time()\<close> return.
\<close>

record 'r env =
  load_model :: "string \<Rightarrow> pyexc option"
  temperature_config :: "string \<Rightarrow> real option"
  get_conversation_template :: "string \<Rightarrow> conv"
  get_prompt :: "conv \<Rightarrow> string"
  tokenizer :: "string \<Rightarrow> inputs result"
  tok_eos_token_id :: int
  tok_pad_token_id :: "int option"
  decode :: "int list \<Rightarrow> string result"
  special_tokens_map_values :: "special_token list"
  is_encoder_decoder :: bool
  manual_seed :: "int \<Rightarrow> 'r"
  generate :: "gen_args \<Rightarrow> 'r \<Rightarrow> int list result \<times> 'r"
  makedirs_open :: "string \<Rightarrow> pyexc option"
  expanduser :: "string \<Rightarrow> string"
  uuid :: "nat \<Rightarrow> string"
  time :: "nat \<Rightarrow> real"
  json_dumps :: "json \<Rightarrow> string"

text \<open>The state outside the function: the generator, the files, the calls made so far.\<close>

record 'r state =
  rng :: 'r
  files :: "string \<rightharpoonup> string"
  uuid_calls :: nat
  time_calls :: nat

subsection \<open>One turn (lines 141--236)\<close>

definition generate_kwargs :: "'r env \<Rightarrow> int \<Rightarrow> real \<Rightarrow> inputs \<Rightarrow> gen_args" where
  "generate_kwargs e MAX_NEW_TOKEN temp inp =
     (let base_len = int (length (input_ids inp));
          num_input_tokens = int (length (input_ids inp));
          max_new_token = budget MAX_NEW_TOKEN num_input_tokens;
          do_sample = (if temp < 1 / 10000 then False else True)
      in \<lparr>arg_input_ids = input_ids inp,
          arg_attention_mask = attention_mask inp,
          bos_token_id = tok_pad_token_id e,
          arg_eos_token_id = tok_eos_token_id e,
          pad_token_id = tok_pad_token_id e,
          do_sample = do_sample,
          temperature = temp,
          max_new_tokens = max_new_token,
          logits_processor = [\<lparr>base_len = base_len, eos_token_id = tok_eos_token_id e\<rparr>]\<rparr>)"

text \<open>Lines 191--198: cut at the first token that is one of the template's stop tokens.\<close>

definition cut_stop_token_ids :: "conv \<Rightarrow> int list \<Rightarrow> int list" where
  "cut_stop_token_ids c output_ids =
     (case stop_token_ids c of
        None \<Rightarrow> output_ids
      | Some ids \<Rightarrow>
          if ids = [] then output_ids
          else (let stop_token_ids_index =
                      map fst (filter (\<lambda>(i, id). id \<in> set ids)
                                      (zip [0 ..< length output_ids] output_ids))
                in if length stop_token_ids_index > 0
                   then take (hd stop_token_ids_index) output_ids
                   else output_ids))"

text \<open>Lines 217--222.\<close>

definition strip_special_tokens :: "special_token list \<Rightarrow> string \<Rightarrow> string" where
  "strip_special_tokens toks output =
     fold (\<lambda>special_token out.
             case special_token of
               Toks l \<Rightarrow> fold (\<lambda>special_tok o'. py_replace o' special_tok []) l out
             | Tok t \<Rightarrow> py_replace out t [])
          toks output"

text \<open>Lines 225--226.\<close>

definition xgen_fix :: "conv \<Rightarrow> string \<Rightarrow> string" where
  "xgen_fix c output =
     (if name c = ''xgen'' \<and> startswith output ''Assistant:''
      then py_strip (py_replace_first output ''Assistant:'' [])
      else output)"

text \<open>
  The body of the \<open>try\<close> (lines 172--229): the output text, or the exception that
  left the block, and the generator state afterwards.
\<close>

definition try_block :: "'r env \<Rightarrow> conv \<Rightarrow> gen_args \<Rightarrow> 'r \<Rightarrow> string result \<times> 'r" where
  "try_block e c kwargs r =
     (case generate e kwargs r of
        (Inl ex, r') \<Rightarrow> (Inl ex, r')
      | (Inr out, r') \<Rightarrow>
          (let output_ids = (if is_encoder_decoder e then out
                             else drop (length (arg_input_ids kwargs)) out);
               output_ids = cut_stop_token_ids c output_ids
           in case decode e output_ids of
                Inl ex \<Rightarrow> (Inl ex, r')
              | Inr output \<Rightarrow>
                  (Inr (xgen_fix c (py_strip (strip_special_tokens (special_tokens_map_values e)
                          (apply_stop_str (stop_str c) output)))), r')))"

text \<open>
  The handler (lines 230--233): an instance of \<open>RuntimeError\<close> is caught, the handler
  prints \<open>question["question_id"]\<close> and the output is \<open>"ERROR"\<close>; any other exception
  leaves the function.
\<close>

definition except_RuntimeError :: "question \<Rightarrow> string result \<Rightarrow> string result" where
  "except_RuntimeError q outcome =
     (case outcome of
        Inr output \<Rightarrow> Inr output
      | Inl (RuntimeError msg) \<Rightarrow>
          (case question_id q of
             None \<Rightarrow> Inl (KeyError ''question_id'')
           | Some qid \<Rightarrow> Inr ''ERROR'')
      | Inl ex \<Rightarrow> Inl ex)"

text \<open>
  The loop variables are the conversation, the list \<open>turns\<close>, the variable
  \<open>max_new_token\<close> (assigned in every turn) and the generator state.
\<close>

type_synonym 'r turn_state = "conv \<times> string list \<times> int \<times> 'r"

definition run_turn ::
  "'r env \<Rightarrow> int \<Rightarrow> real \<Rightarrow> question \<Rightarrow> string \<Rightarrow> 'r turn_state \<Rightarrow> 'r turn_state result" where
  "run_turn e MAX_NEW_TOKEN temp q qs s =
     (case s of (c, ts, max_new_token, r) \<Rightarrow>
        (let c = append_message c (fst (roles c)) (Some qs);
             c = append_message c (snd (roles c)) None;
             prompt = get_prompt e c
         in case tokenizer e prompt of
              Inl ex \<Rightarrow> Inl ex
            | Inr inp \<Rightarrow>
                (let kwargs = generate_kwargs e MAX_NEW_TOKEN temp inp;
                     max_new_token = max_new_tokens kwargs
                 in case try_block e c kwargs r of
                      (outcome, r') \<Rightarrow>
                        (case except_RuntimeError q outcome of
                           Inl ex \<Rightarrow> Inl ex
                         | Inr output \<Rightarrow>
                             (case update_last_message c output of
                                Inl ex \<Rightarrow> Inl ex
                              | Inr c' \<Rightarrow> Inr (c', ts @ [output], max_new_token, r'))))))"

fun run_turns ::
  "'r env \<Rightarrow> int \<Rightarrow> real \<Rightarrow> question \<Rightarrow> string list \<Rightarrow> 'r turn_state \<Rightarrow> 'r turn_state result" where
  "run_turns e MAX_NEW_TOKEN temp q [] s = Inr s"
| "run_turns e MAX_NEW_TOKEN temp q (qs # rest) s =
     (case run_turn e MAX_NEW_TOKEN temp q qs s of
        Inl ex \<Rightarrow> Inl ex
      | Inr s' \<Rightarrow> run_turns e MAX_NEW_TOKEN temp q rest s')"

subsection \<open>One choice, one question, all questions\<close>

text \<open>
  Lines 137--238 for the choice index \<open>i\<close>: the loop variables of the loop over the
  choices are the list \<open>choices\<close>, \<open>max_new_token\<close> and the generator state.
\<close>

type_synonym 'r choice_state = "json list \<times> int \<times> 'r"

definition run_choice ::
  "'r env \<Rightarrow> string \<Rightarrow> int \<Rightarrow> real \<Rightarrow> question \<Rightarrow> int \<Rightarrow> 'r choice_state \<Rightarrow> 'r choice_state result" where
  "run_choice e model_id MAX_NEW_TOKEN temp q i s =
     (case s of (choices, max_new_token, r) \<Rightarrow>
        (let r = manual_seed e i;
             c = get_conversation_template e model_id
         in case turns q of
              None \<Rightarrow> Inl (KeyError ''turns'')
            | Some question_turns \<Rightarrow>
                (case run_turns e MAX_NEW_TOKEN temp q question_turns (c, [], max_new_token, r) of
                   Inl ex \<Rightarrow> Inl ex
                 | Inr (c', ts, max_new_token', r') \<Rightarrow>
                     Inr (choices @ [JObj [(''index'', JInt i), (''turns'', JList (map JStr ts))]],
                          max_new_token', r'))))"

fun run_choices ::
  "'r env \<Rightarrow> string \<Rightarrow> int \<Rightarrow> real \<Rightarrow> question \<Rightarrow> int list \<Rightarrow> 'r choice_state \<Rightarrow> 'r choice_state result" where
  "run_choices e model_id MAX_NEW_TOKEN temp q [] s = Inr s"
| "run_choices e model_id MAX_NEW_TOKEN temp q (i # rest) s =
     (case run_choice e model_id MAX_NEW_TOKEN temp q i s of
        Inl ex \<Rightarrow> Inl ex
      | Inr s' \<Rightarrow> run_choices e model_id MAX_NEW_TOKEN temp q rest s')"

text \<open>\<open>range(num_choices)\<close>.\<close>

definition choice_indices :: "int \<Rightarrow> int list" where
  "choice_indices num_choices = map int [0 ..< nat num_choices]"

text \<open>
  Lines 130--238: the temperature and the choices of one question.
\<close>

definition question_choices ::
  "'r env \<Rightarrow> string \<Rightarrow> int \<Rightarrow> int \<Rightarrow> question \<Rightarrow> int \<times> 'r \<Rightarrow> 'r choice_state result" where
  "question_choices e model_id MAX_NEW_TOKEN num_choices q s =
     (case category q of
        None \<Rightarrow> Inl (KeyError ''category'')
      | Some cat \<Rightarrow>
          (let temp = (case temperature_config e cat of Some t \<Rightarrow> t | None \<Rightarrow> 7 / 10)
           in run_choices e model_id MAX_NEW_TOKEN temp q (choice_indices num_choices)
                ([], fst s, snd s)))"

text \<open>
  Lines 240--250: the record of one question and its line in the answer file, which
  is opened for appending (and so created when it does not exist).
\<close>

definition ans_json :: "'r env \<Rightarrow> string \<Rightarrow> json \<Rightarrow> json list \<Rightarrow> nat \<Rightarrow> nat \<Rightarrow> json" where
  "ans_json e model_id qid choices k t =
     JObj [(''question_id'', qid),
           (''answer_id'', JStr (uuid e k)),
           (''model_id'', JStr model_id),
           (''choices'', JList choices),
           (''tstamp'', JFloat (time e t))]"

definition append_file :: "(string \<rightharpoonup> string) \<Rightarrow> string \<Rightarrow> string \<Rightarrow> (string \<rightharpoonup> string)" where
  "append_file fs path text =
     fs(path \<mapsto> (case fs path of None \<Rightarrow> [] | Some content \<Rightarrow> content) @ text)"

definition dump_answer ::
  "'r env \<Rightarrow> string \<Rightarrow> string \<Rightarrow> question \<Rightarrow> json list \<Rightarrow> 'r state \<Rightarrow> 'r state result" where
  "dump_answer e model_id answer_file q choices st =
     (case makedirs_open e answer_file of
        Some ex \<Rightarrow> Inl ex
      | None \<Rightarrow>
          (case question_id q of
             None \<Rightarrow> Inl (KeyError ''question_id'')
           | Some qid \<Rightarrow>
               Inr (st\<lparr>files := append_file (files st) (expanduser e answer_file)
                                   (json_dumps e (ans_json e model_id qid choices
                                                    (uuid_calls st) (time_calls st)) @ [LF]),
                       uuid_calls := Suc (uuid_calls st),
                       time_calls := Suc (time_calls st)\<rparr>)))"

definition run_question ::
  "'r env \<Rightarrow> string \<Rightarrow> string \<Rightarrow> int \<Rightarrow> int \<Rightarrow> question \<Rightarrow> 'r state \<times> int \<Rightarrow> ('r state \<times> int) result" where
  "run_question e model_id answer_file MAX_NEW_TOKEN num_choices q s =
     (case s of (st, max_new_token) \<Rightarrow>
        (case question_choices e model_id MAX_NEW_TOKEN num_choices q (max_new_token, rng st) of
           Inl ex \<Rightarrow> Inl ex
         | Inr (choices, max_new_token', r') \<Rightarrow>
             (case dump_answer e model_id answer_file q choices (st\<lparr>rng := r'\<rparr>) of
                Inl ex \<Rightarrow> Inl ex
              | Inr st' \<Rightarrow> Inr (st', max_new_token'))))"

fun run_questions ::
  "'r env \<Rightarrow> string \<Rightarrow> string \<Rightarrow> int \<Rightarrow> int \<Rightarrow> question list \<Rightarrow> 'r state \<times> int \<Rightarrow> ('r state \<times> int) result" where
  "run_questions e model_id answer_file MAX_NEW_TOKEN num_choices [] s = Inr s"
| "run_questions e model_id answer_file MAX_NEW_TOKEN num_choices (q # rest) s =
     (case run_question e model_id answer_file MAX_NEW_TOKEN num_choices q s of
        Inl ex \<Rightarrow> Inl ex
      | Inr s' \<Rightarrow> run_questions e model_id answer_file MAX_NEW_TOKEN num_choices rest s')"

definition get_model_answers ::
  "'r env \<Rightarrow> string \<Rightarrow> string \<Rightarrow> question list \<Rightarrow> string \<Rightarrow> int \<Rightarrow> int \<Rightarrow> 'r state \<Rightarrow> 'r state result" where
  "get_model_answers e model_path model_id questions answer_file max_new_token num_choices st =
     (case load_model e model_path of
        Some ex \<Rightarrow> Inl ex
      | None \<Rightarrow>
          (let MAX_NEW_TOKEN = max_new_token
           in case run_questions e model_id answer_file MAX_NEW_TOKEN num_choices questions
                     (st, max_new_token) of
                Inl ex \<Rightarrow> Inl ex
              | Inr (st', max_new_token') \<Rightarrow> Inr st'))"

section \<open>Auxiliary definitions for stating the properties\<close>


subsection \<open>A small environment for concrete instances\<close>

text \<open>
  The tokenizer maps a character to its code and back, the model answers with two
  letters, the stop token 2 and one more token, the generator state is a counter, and
  the serialiser writes integers in unary and no floats.
\<close>

fun demo_dumps :: "json \<Rightarrow> string" where
  "demo_dumps JNull = ''null''"
| "demo_dumps (JBool b) = (if b then ''true'' else ''false'')"
| "demo_dumps (JInt i) = (if i < 0 then ''-'' else []) @ replicate (nat \<bar>i\<bar>) CHR ''|''"
| "demo_dumps (JFloat x) = ''<float>''"
| "demo_dumps (JStr s) = ''<'' @ s @ ''>''"
| "demo_dumps (JList l) = ''['' @ concat (map (\<lambda>j. demo_dumps j @ '','') l) @ '']''"
| "demo_dumps (JObj kvs) =
     ''{'' @ concat (map (\<lambda>(k, v). k @ '':'' @ demo_dumps v @ '','') kvs) @ ''}''"

definition demo_conv :: conv where
  "demo_conv = \<lparr>name = ''demo'', roles = (''USER'', ''ASSISTANT''), messages = [],
                stop_token_ids = Some [2], stop_str = StopStr ''</s>''\<rparr>"

definition demo_prompt :: "conv \<Rightarrow> string" where
  "demo_prompt c =
     concat (map (\<lambda>(role, m). role @ '': '' @ (case m of None \<Rightarrow> [] | Some t \<Rightarrow> t @ '' ''))
                 (messages c))"

definition demo_env :: "nat env" where
  "demo_env =
     \<lparr>load_model = (\<lambda>p. if p = [] then Some (OSError ''no such model'') else None),
      temperature_config = (\<lambda>c. if c = ''math'' then Some 0 else None),
      get_conversation_template = (\<lambda>m. demo_conv),
      get_prompt = demo_prompt,
      tokenizer = (\<lambda>p. Inr \<lparr>input_ids = map (\<lambda>c. of_char c) p,
                              attention_mask = map (\<lambda>c. 1) p\<rparr>),
      tok_eos_token_id = 2,
      tok_pad_token_id = Some 0,
      decode = (\<lambda>ids. Inr (map (\<lambda>i. char_of i) ids)),
      special_tokens_map_values = [Tok ''<s>'', Toks [''<pad>'', ''<unk>'']],
      is_encoder_decoder = False,
      manual_seed = (\<lambda>i. nat i),
      generate = (\<lambda>a r. (Inr (arg_input_ids a @ [72 + int r, 105, 2, 33]), Suc r)),
      makedirs_open = (\<lambda>p. if p = [] then Some (OSError ''no such directory'') else None),
      expanduser = (\<lambda>p. p),
      uuid = (\<lambda>k. ''id'' @ replicate k CHR ''x''),
      time = (\<lambda>k. 1000 + real k),
      json_dumps = demo_dumps\<rparr>"

definition demo_question :: question where
  "demo_question = \<lparr>question_id = Some (JInt 3), category = Some ''math'',
                    turns = Some [''a'', ''b'']\<rparr>"

definition demo_state :: "nat state" where
  "demo_state = \<lparr>rng = 99, files = Map.empty, uuid_calls = 0, time_calls = 0\<rparr>"

text \<open>
  A stand-in for \<open>json.loads(l)["question_id"]\<close> on records with the single key
  \<open>question_id\<close> and a one-digit id: surrounding whitespace is ignored, anything
  else (also two records on one line) is an error, as it is for \<open>json.loads\<close>.
\<close>
definition demo_qid_of :: "string \<Rightarrow> nat result" where
  \<open>demo_qid_of l =
     (let s = py_strip l
      in if length s = 18 \<and> take 16 s = ''{"question_id": '' \<and> drop 17 s = ''}'' \<and>
            s ! 16 \<in> set ''0123456789''
         then Inr (of_char (s ! 16) - 48)
         else Inl (ValueError ''not one record with a question_id''))\<close>


definition demo_qid :: "string \<Rightarrow> nat" where
  "demo_qid l = (case demo_qid_of l of Inr k \<Rightarrow> k | Inl e \<Rightarrow> 0)"

definition demo_answers :: string where
  \<open>demo_answers = ''{"question_id": 2}'' @ [LF] @ ''{"question_id": 1}'' @ [LF] @
                   '' {"question_id": 2}'' @ [LF]\<close>


definition oom_env :: "nat env" where
  "oom_env = demo_env\<lparr>generate := \<lambda>a r. (Inl (RuntimeError ''CUDA out of memory''), Suc r)\<rparr>"

text \<open>
  The small environment with a model whose generation call raises a \<open>ValueError\<close>,
  and the tokenized prompt of the first turn \<open>a\<close> in the small environment.
\<close>

definition valerr_env :: "nat env" where
  "valerr_env = demo_env\<lparr>generate := \<lambda>a r. (Inl (ValueError ''max_new_tokens must be greater than 0''), r)\<rparr>"

definition demo_inputs :: inputs where
  "demo_inputs = \<lparr>input_ids = map of_char ''USER: a ASSISTANT: '',
                  attention_mask = map (\<lambda>c. 1) ''USER: a ASSISTANT: ''\<rparr>"


text \<open>
  What a run leaves outside the process besides the generator state: the files and
  the number of ids and clock readings drawn.
\<close>

definition outside :: "'r state \<Rightarrow> (string \<rightharpoonup> string) \<times> nat \<times> nat" where
  "outside st = (files st, uuid_calls st, time_calls st)"

section \<open>Properties\<close>

lemma find_index_of_Some:
  "find_index_of s sub = Some i \<Longrightarrow>
     i \<le> length s \<and> take (length sub) (drop i s) = sub \<and>
     (\<forall>j<i. take (length sub) (drop j s) \<noteq> sub)"
proof (induction s arbitrary: i)
  case Nil
  then show ?case by (simp split: if_splits)
next
  case (Cons c cs)
  show ?case
  proof (cases "take (length sub) (c # cs) = sub")
    case True
    with Cons.prems show ?thesis by simp
  next
    case False
    with Cons.prems obtain k where k: "find_index_of cs sub = Some k" "i = Suc k"
      by auto
    from Cons.IH [OF k(1)] have ih:
      "k \<le> length cs" "take (length sub) (drop k cs) = sub"
      "\<forall>j<k. take (length sub) (drop j cs) \<noteq> sub" by simp_all
    have "\<forall>j<Suc k. take (length sub) (drop j (c # cs)) \<noteq> sub"
    proof (intro allI impI)
      fix j assume "j < Suc k"
      then show "take (length sub) (drop j (c # cs)) \<noteq> sub"
        using False ih(3) by (cases j) auto
    qed
    with ih k show ?thesis by simp
  qed
qed

lemma find_index_of_None:
  "find_index_of s sub = None \<Longrightarrow> \<forall>j\<le>length s. take (length sub) (drop j s) \<noteq> sub"
proof (induction s)
  case Nil
  then show ?case by (auto split: if_splits)
next
  case (Cons c cs)
  then have a: "take (length sub) (c # cs) \<noteq> sub" and b: "find_index_of cs sub = None"
    by (auto split: if_splits)
  show ?case
  proof (intro allI impI)
    fix j assume "j \<le> length (c # cs)"
    then show "take (length sub) (drop j (c # cs)) \<noteq> sub"
      using a Cons.IH [OF b] by (cases j) auto
  qed
qed


subsection \<open>\<open>str.find\<close>\<close>

lemma find_index_of_empty: "find_index_of out [] = Some 0"
  by (cases out) auto

lemma py_find_empty: "py_find out [] = 0"
  by (simp add: py_find_def find_index_of_empty)

lemma py_find_ge: "- 1 \<le> py_find s sub"
  by (simp add: py_find_def split: option.splits)

lemma py_find_occurrence:
  "0 \<le> py_find s sub \<Longrightarrow>
     take (length sub) (drop (nat (py_find s sub)) s) = sub \<and>
     (\<forall>j<nat (py_find s sub). take (length sub) (drop j s) \<noteq> sub)"
  using find_index_of_Some [of s sub]
  by (auto simp: py_find_def split: option.splits)

lemma py_find_absent:
  "py_find s sub = - 1 \<Longrightarrow> \<forall>j\<le>length s. take (length sub) (drop j s) \<noteq> sub"
  using find_index_of_None [of s sub]
  by (auto simp: py_find_def split: option.splits)

subsection \<open>Stop strings\<close>

lemma hd_sort_Min: "xs \<noteq> [] \<Longrightarrow> hd (sort xs) = Min (set xs)"
proof -
  assume ne: "xs \<noteq> []"
  then have "sort xs \<noteq> []" by (metis length_0_conv length_sort)
  then obtain y ys where s: "sort xs = y # ys" by (cases "sort xs") auto
  have "sorted (y # ys)" using s by (metis sorted_sort)
  then have "\<forall>z\<in>set (y # ys). y \<le> z" by auto
  moreover have "set (y # ys) = set xs" using s by (metis set_sort)
  ultimately have "Min (set xs) = y"
    by (intro Min_eqI) auto
  then show ?thesis using s by simp
qed

lemma set_stop_str_indices:
  "set (stop_str_indices l out) = {py_find out s | s. s \<in> set l \<and> py_find out s > 0}"
  by (auto simp: stop_str_indices_def)

lemma stop_str_indices_Nil:
  "(stop_str_indices l out = []) = ({py_find out s | s. s \<in> set l \<and> py_find out s > 0} = {})"
  using set_stop_str_indices [of l out] by (metis set_empty)

lemma apply_stop_str_single:
  "apply_stop_str (StopStr s) out =
     (if py_find out s > 0 then take (nat (py_find out s)) out else out)"
  by (cases "s = []") (auto simp: slice_to_def py_find_empty)

lemma apply_stop_str_list:
  "apply_stop_str (StopList l) out =
     (if {py_find out s | s. s \<in> set l \<and> py_find out s > 0} = {} then out
      else take (nat (Min {py_find out s | s. s \<in> set l \<and> py_find out s > 0})) out)"
proof -
  let ?I = "{py_find out s | s. s \<in> set l \<and> py_find out s > 0}"
  show ?thesis
  proof (cases "?I = {}")
    case True
    then have "stop_str_indices l out = []" by (simp only: stop_str_indices_Nil)
    then show ?thesis using True by simp
  next
    case False
    then have ne: "stop_str_indices l out \<noteq> []" by (simp only: stop_str_indices_Nil) simp
    then have lne: "l \<noteq> []" by (auto simp: stop_str_indices_def)
    define xs where "xs = map (py_find out) (filter (\<lambda>stop_str. py_find out stop_str > 0) l)"
    have sx: "stop_str_indices l out = sort xs" by (simp add: stop_str_indices_def xs_def)
    have "xs \<noteq> []" using ne sx by auto
    then have "hd (sort xs) = Min (set xs)" by (rule hd_sort_Min)
    moreover have "set xs = ?I" using set_stop_str_indices [of l out] sx by simp
    ultimately have h: "hd (stop_str_indices l out) = Min ?I" using sx by simp
    have "Min ?I \<in> ?I" using False by (intro Min_in) auto
    then have pos: "Min ?I > 0" by auto
    have a: "apply_stop_str (StopList l) out = slice_to out (hd (stop_str_indices l out))"
      using ne lne by (simp add: Let_def)
    have b: "slice_to out (Min ?I) = take (nat (Min ?I)) out"
      using pos by (simp only: slice_to_def) simp
    have c: "(if ?I = {} then out else take (nat (Min ?I)) out) = take (nat (Min ?I)) out"
      using False by (simp only: if_False)
    show ?thesis by (simp only: a h b c)
  qed
qed

text \<open>
  C10 (as stated): an output that begins with a stop string is left untruncated in
  every case. It is not: with the stop strings \<open>A\<close> and \<open>B\<close>, the output \<open>AxB\<close>
  begins with \<open>A\<close> and is cut at the \<open>B\<close>. Nor is the output always cut at the
  smallest positive index at which a stop string occurs: \<open>ab\<close> occurs in \<open>abxab\<close> at
  index 3, but \<open>find\<close> reports index 0 and nothing is cut.
\<close>

theorem stop_str_index0_counterexample:
  "py_find ''AxB'' ''A'' = 0 \<and>
   apply_stop_str (StopList [''A'', ''B'']) ''AxB'' = ''Ax'' \<and>
   take 2 (drop 3 ''abxab'') = ''ab'' \<and>
   apply_stop_str (StopList [''ab'']) ''abxab'' = ''abxab''"
  by code_simp

text \<open>
  C10 (amended): only first occurrences count, and only those at a positive index.
  A single stop string cuts the output at its first occurrence when that is at a
  positive index and not otherwise. A list of stop strings cuts the output at the
  smallest of the first-occurrence indices that are positive, and not at all when
  there is none. A stop string whose first occurrence is at index 0 (or that does not
  occur) causes no cut itself: the output is unchanged when this holds for the single
  stop string, or for every stop string of the list.
\<close>

theorem stop_str_truncation:
  "apply_stop_str (StopStr s) out =
     (if py_find out s > 0 then take (nat (py_find out s)) out else out) \<and>
   apply_stop_str (StopList l) out =
     (if {py_find out s | s. s \<in> set l \<and> py_find out s > 0} = {} then out
      else take (nat (Min {py_find out s | s. s \<in> set l \<and> py_find out s > 0})) out) \<and>
   (py_find out s \<le> 0 \<longrightarrow> apply_stop_str (StopStr s) out = out) \<and>
   ((\<forall>s\<in>set l. py_find out s \<le> 0) \<longrightarrow> apply_stop_str (StopList l) out = out)"
proof (intro conjI impI)
  show "apply_stop_str (StopStr s) out =
     (if py_find out s > 0 then take (nat (py_find out s)) out else out)"
    by (rule apply_stop_str_single)
  show "apply_stop_str (StopList l) out =
     (if {py_find out s | s. s \<in> set l \<and> py_find out s > 0} = {} then out
      else take (nat (Min {py_find out s | s. s \<in> set l \<and> py_find out s > 0})) out)"
    by (rule apply_stop_str_list)
  show "apply_stop_str (StopStr s) out = out" if "py_find out s \<le> 0"
    using that by (simp only: apply_stop_str_single) simp
  show "apply_stop_str (StopList l) out = out" if "\<forall>s\<in>set l. py_find out s \<le> 0"
  proof -
    from that have "{py_find out s | s. s \<in> set l \<and> py_find out s > 0} = {}" by auto
    then show ?thesis using apply_stop_str_list [of l out] by simp
  qed
qed

theorem stop_str_truncation_witness:
  "py_find ''</s>hi</s>'' ''</s>'' \<le> 0 \<and>
   py_find ''</s>hi</s>'' ''###'' \<le> 0 \<and>
   apply_stop_str (StopStr ''</s>'') ''</s>hi</s>'' = ''</s>hi</s>'' \<and>
   apply_stop_str (StopList [''</s>'', ''###'']) ''</s>hi</s>'' = ''</s>hi</s>''"
proof -
  have h1: "py_find ''</s>hi</s>'' ''</s>'' \<le> 0" by code_simp
  have h2: "\<forall>s\<in>set [''</s>'', ''###'']. py_find ''</s>hi</s>'' s \<le> 0" by code_simp
  have h3: "py_find ''</s>hi</s>'' ''###'' \<le> 0" by code_simp
  from stop_str_truncation [of "''</s>''" "''</s>hi</s>''" "[''</s>'', ''###'']"] h1 h2 h3
  show ?thesis by blast
qed

subsection \<open>The generation budget\<close>
















lemma run_turn_var_irrelevant:
  "run_turn e M temp q qs (c, ts, v, r) = run_turn e M temp q qs (c, ts, v', r)"
  by (simp add: run_turn_def)



subsection \<open>\<open>run_eval\<close>\<close>



lemma concat_chunks:
  "concat (map (\<lambda>k. take c (drop (k * c) xs)) [0..<m]) = take (m * c) xs"
proof (induction m)
  case 0
  then show ?case by simp
next
  case (Suc m)
  have "Suc m * c = m * c + c" by simp
  then have "take (Suc m * c) xs = take (m * c) xs @ take c (drop (m * c) xs)"
    by (simp only: take_add)
  with Suc show ?case by simp
qed

lemma py_slice_chunk:
  assumes "0 < c" "k * c < length xs"
  shows "py_slice xs (int k * int c) (int k * int c + int c) = take c (drop (k * c) xs)"
proof -
  have a: "min (int k * int c) (int (length xs)) = int (k * c)"
    using assms by (simp add: min_def) (metis less_imp_le of_nat_le_iff of_nat_mult)
  have "int k * int c + int c = int (k * c + c)" by simp
  then have b: "min (int k * int c + int c) (int (length xs)) = int (min (k * c + c) (length xs))"
    by (simp only: of_nat_min)
  have "0 \<le> int k * int c" by simp
  then have nn: "\<not> int k * int c < 0" "\<not> int k * int c + int c < 0"
    by linarith+
  have "py_slice xs (int k * int c) (int k * int c + int c)
      = take (nat (int (min (k * c + c) (length xs)) - int (k * c))) (drop (k * c) xs)"
  proof -
    have nk: "nat (int k * int c) = k * c" by (simp add: nat_mult_distrib)
    show ?thesis unfolding py_slice_def Let_def using nn a b nk by simp
  qed
  also have "nat (int (min (k * c + c) (length xs)) - int (k * c)) = min c (length xs - k * c)"
  proof -
    have "k * c \<le> min (k * c + c) (length xs)" using assms by simp
    then have "int (min (k * c + c) (length xs)) - int (k * c)
                 = int (min (k * c + c) (length xs) - k * c)"
      by (simp only: of_nat_diff)
    then have "nat (int (min (k * c + c) (length xs)) - int (k * c))
                 = min (k * c + c) (length xs) - k * c"
      by (simp only: nat_int)
    also have "\<dots> = min c (length xs - k * c)"
    proof -
      have "\<And>m n::nat. m < n \<Longrightarrow> min (m + c) n - m = min c (n - m)" by auto
      from this [OF assms(2)] show ?thesis .
    qed
    finally show ?thesis .
  qed
  also have "take (min c (length xs - k * c)) (drop (k * c) xs) = take c (drop (k * c) xs)"
    by (simp add: min_def)
  finally show ?thesis .
qed


lemma ceil_div_chunks:
  fixes n g :: nat
  assumes "0 < g" "0 < n div g"
  shows "(n - 1) div (n div g) + 1 \<ge> g"
    and "((n - 1) div (n div g) + 1 = g) = (g dvd n)"
proof -
  define c where "c = n div g"
  define r where "r = n mod g"
  have c: "0 < c" using assms by (simp add: c_def)
  have n: "n = c * g + r" by (simp add: c_def r_def)
  have r: "r < g" using assms by (simp add: r_def)
  have dv: "(g dvd n) = (r = 0)" by (simp add: r_def dvd_eq_mod_eq_0)
  have gpos: "g = Suc (g - 1)" using assms by simp
  show "(n - 1) div (n div g) + 1 \<ge> g"
  proof -
    have "c * (g - 1) \<le> n - 1"
    proof -
      have "c * g = c * (g - 1) + c" using gpos by (metis mult_Suc_right add.commute)
      then show ?thesis using n c by linarith
    qed
    then have "(c * (g - 1)) div c \<le> (n - 1) div c" by (rule div_le_mono)
    then have "g - 1 \<le> (n - 1) div c" using c by simp
    then show ?thesis using gpos unfolding c_def by linarith
  qed
  show "((n - 1) div (n div g) + 1 = g) = (g dvd n)"
  proof (cases "r = 0")
    case True
    have "c * g = c * (g - 1) + c" using gpos by (metis mult_Suc_right add.commute)
    define d where "d = c - 1"
    have d: "d < c" "c = d + 1" using c by (simp_all add: d_def)
    have "n = (g - 1) * c + (d + 1)" using \<open>c * g = c * (g - 1) + c\<close> n True d(2)
      by (simp add: mult.commute)
    then have "n - 1 = (g - 1) * c + d" by simp
    moreover have "((g - 1) * c + d) div c = (g - 1) + d div c" using c by simp
    moreover have "d div c = 0" using d(1) by simp
    ultimately have "(n - 1) div c = g - 1" by simp
    then show ?thesis using True dv gpos unfolding c_def by linarith
  next
    case False
    then have "c * g \<le> n - 1" using n by linarith
    then have "(c * g) div c \<le> (n - 1) div c" by (rule div_le_mono)
    then have "g \<le> (n - 1) div c" using c by simp
    then show ?thesis using False dv unfolding c_def by linarith
  qed
qed

lemma chunk_bounds:
  fixes n c :: nat
  assumes "0 < c" "0 < n"
  shows "k < (n - 1) div c + 1 \<Longrightarrow> k * c < n"
    and "n \<le> ((n - 1) div c + 1) * c"
proof -
  show "k * c < n" if "k < (n - 1) div c + 1"
  proof -
    from that have "k \<le> (n - 1) div c" by simp
    then have "k * c \<le> ((n - 1) div c) * c" by simp
    also have "\<dots> \<le> n - 1" by simp
    finally show ?thesis using assms by linarith
  qed
  show "n \<le> ((n - 1) div c + 1) * c"
  proof -
    have "n - 1 = ((n - 1) div c) * c + (n - 1) mod c" by simp
    moreover have "(n - 1) mod c < c" using assms by simp
    ultimately have "n - 1 < ((n - 1) div c) * c + c" by linarith
    then show ?thesis by simp
  qed
qed

lemma run_eval_Inr:
  assumes ok: "run_eval qs per tot = Inr chunks" and g: "0 < tot div per"
  shows "0 < length qs div nat (tot div per) \<and>
         chunks = map (\<lambda>k. take (length qs div nat (tot div per))
                               (drop (k * (length qs div nat (tot div per))) qs))
                      [0 ..< (length qs - 1) div (length qs div nat (tot div per)) + 1]"
proof -
  define G where "G = nat (tot div per)"
  define c where "c = length qs div G"
  have Gi: "int G = tot div per" using g by (simp add: G_def)
  have ci: "int (length qs) div (tot div per) = int c"
    by (simp add: c_def Gi [symmetric] zdiv_int)
  have nz: "per \<noteq> 0" "tot mod per = 0" "tot div per \<noteq> 0"
    using ok g by (auto simp: run_eval_def split: if_splits)
  from ok nz have r: "(case py_range 0 (int (length qs)) (int c) of
              Inl e \<Rightarrow> Inl e
            | Inr starts \<Rightarrow> Inr (map (\<lambda>i. py_slice qs i (i + int c)) starts)) = Inr chunks"
    by (simp add: run_eval_def ci Let_def)
  have cpos: "0 < c"
  proof (rule ccontr)
    assume "\<not> 0 < c"
    then have "c = 0" by simp
    with r show False by (simp add: py_range_def)
  qed
  then have npos: "0 < length qs" unfolding c_def by (cases "length qs = 0") auto
  have m: "nat ((int (length qs) - 0 - 1) div int c + 1) = (length qs - 1) div c + 1"
  proof -
    have "1 \<le> length qs" using npos by linarith
    then have "int (length qs - 1) = int (length qs) - int 1" by (rule of_nat_diff)
    then have e: "int (length qs) - 0 - 1 = int (length qs - 1)" by simp
    have f: "int (length qs - 1) div int c + 1 = int ((length qs - 1) div c + 1)"
      by (simp only: of_nat_div of_nat_add of_nat_1)
    show ?thesis by (simp only: e f nat_int)
  qed
  have pr: "py_range 0 (int (length qs)) (int c)
             = Inr (map (\<lambda>k. 0 + int k * int c) [0 ..< (length qs - 1) div c + 1])"
    using cpos npos m by (simp add: py_range_def)
  from r have ch: "chunks = map (\<lambda>k. py_slice qs (int k * int c) (int k * int c + int c))
                        [0 ..< (length qs - 1) div c + 1]"
    by (simp add: pr comp_def)
  have mp: "map (\<lambda>k. py_slice qs (int k * int c) (int k * int c + int c))
            [0 ..< (length qs - 1) div c + 1]
      = map (\<lambda>k. take c (drop (k * c) qs)) [0 ..< (length qs - 1) div c + 1]"
  proof (rule map_cong [OF refl])
    fix k assume "k \<in> set [0 ..< (length qs - 1) div c + 1]"
    then have "k < (length qs - 1) div c + 1" by (metis atLeastLessThan_iff set_upt)
    then have "k * c < length qs" by (rule chunk_bounds(1) [OF cpos npos])
    then show "py_slice qs (int k * int c) (int k * int c + int c) = take c (drop (k * c) qs)"
      by (rule py_slice_chunk [OF cpos])
  qed
  have ch': "chunks = map (\<lambda>k. take c (drop (k * c) qs)) [0 ..< (length qs - 1) div c + 1]"
    by (simp only: ch mp)
  from cpos ch' show ?thesis unfolding c_def G_def by (rule conjI)
qed




text \<open>
  What \<open>run_eval\<close> dispatches, for a positive number of accelerator-groups: the
  chunks are contiguous pieces of the question list of
  \<open>chunk_size = len(questions) // groups\<close> questions each (the last one possibly
  shorter, none empty), taken in order, and together they are the question list: every
  question is in exactly one chunk. Their number is \<open>(len - 1) // chunk_size + 1\<close>;
  it is the number of groups exactly when that number divides the number of
  questions, and larger otherwise.
\<close>

lemma run_eval_chunks:
  assumes ok: "run_eval questions per tot = Inr chunks"
      and g: "0 < tot div per"
      and cs: "int chunk_size = int (length questions) div (tot div per)"
  shows "concat chunks = questions \<and>
         (\<forall>k<length chunks.
            chunks ! k = take chunk_size (drop (k * chunk_size) questions) \<and> chunks ! k \<noteq> []) \<and>
         length chunks = (length questions - 1) div chunk_size + 1 \<and>
         nat (tot div per) \<le> length chunks \<and>
         ((length chunks = nat (tot div per)) = (nat (tot div per) dvd length questions))"
proof -
  define G where "G = nat (tot div per)"
  have Gi: "int G = tot div per" using g by (simp add: G_def)
  have Gpos: "0 < G" using g by (simp add: G_def)
  have "int chunk_size = int (length questions div G)"
    by (simp only: cs Gi [symmetric] of_nat_div)
  then have c: "chunk_size = length questions div G" by (simp only: of_nat_eq_iff)
  from run_eval_Inr [OF ok g]
  have cpos: "0 < chunk_size"
    and ch: "chunks = map (\<lambda>k. take chunk_size (drop (k * chunk_size) questions))
                          [0 ..< (length questions - 1) div chunk_size + 1]"
    unfolding c G_def by blast+
  have npos: "0 < length questions" using cpos c by (cases "length questions = 0") auto
  have len: "length chunks = (length questions - 1) div chunk_size + 1"
    by (simp only: ch length_map length_upt)
  have "concat chunks = take (((length questions - 1) div chunk_size + 1) * chunk_size) questions"
    by (simp only: ch concat_chunks)
  also have "\<dots> = questions"
    using chunk_bounds(2) [OF cpos npos] by simp
  finally have cover: "concat chunks = questions" .
  have each: "\<forall>k<length chunks.
            chunks ! k = take chunk_size (drop (k * chunk_size) questions) \<and> chunks ! k \<noteq> []"
  proof (intro allI impI)
    fix k assume k: "k < length chunks"
    then have k': "k < (length questions - 1) div chunk_size + 1" by (simp only: len)
    have e: "chunks ! k = take chunk_size (drop (k * chunk_size) questions)"
      unfolding ch using k' by (simp del: upt_Suc)
    have "k * chunk_size < length questions" using k' by (rule chunk_bounds(1) [OF cpos npos])
    then have "take chunk_size (drop (k * chunk_size) questions) \<noteq> []" using cpos by simp
    with e show "chunks ! k = take chunk_size (drop (k * chunk_size) questions) \<and> chunks ! k \<noteq> []"
      by simp
  qed
  have cd: "0 < length questions div G" using cpos c by simp
  from ceil_div_chunks [OF Gpos cd]
  have "G \<le> length chunks" "(length chunks = G) = (G dvd length questions)"
    unfolding len c by simp_all
  with cover each len show ?thesis unfolding G_def by blast
qed

text \<open>
  C4: one chunk per accelerator-group is what the comment of line 70 announces
  (\<open>Split the question file into `num_gpus` files\<close>) and what
  \<open>chunk_size = len(questions) // groups\<close> sets out to do, and the code misses it
  whenever the number of groups does not divide the number of questions: the
  remainder becomes chunks of its own. Ten questions and three groups give a chunk
  size of 3 and four chunks; seven questions and four groups give a chunk size of 1
  and seven chunks.
\<close>

theorem run_eval_surplus_chunks:
  "run_eval [1, 2, 3, 4, 5, 6, 7, 8, 9, 10 :: nat] 1 3
     = Inr [[1, 2, 3], [4, 5, 6], [7, 8, 9], [10]] \<and>
   (3 :: int) mod 1 = 0 \<and> (3 :: int) div 1 = 3 \<and>
   length [[1, 2, 3], [4, 5, 6], [7, 8, 9], [10 :: nat]] = 4 \<and>
   run_eval [1, 2, 3, 4, 5, 6, 7 :: nat] 1 4 = Inr [[1], [2], [3], [4], [5], [6], [7]] \<and>
   (4 :: int) mod 1 = 0 \<and> (4 :: int) div 1 = 4 \<and>
   length [[1], [2], [3], [4], [5], [6], [7 :: nat]] = 7"
  by code_simp

lemma run_eval_chunks_instance:
  "run_eval [1, 2, 3, 4, 5, 6, 7, 8, 9, 10 :: nat] 1 3
     = Inr [[1, 2, 3], [4, 5, 6], [7, 8, 9], [10]] \<and>
   (0 :: int) < 3 div 1 \<and>
   int (3 :: nat) = int (length [1, 2, 3, 4, 5, 6, 7, 8, 9, 10 :: nat]) div (3 div 1) \<and>
   concat [[1, 2, 3], [4, 5, 6], [7, 8, 9], [10 :: nat]] = [1, 2, 3, 4, 5, 6, 7, 8, 9, 10] \<and>
   nat (3 div 1) \<le> length [[1, 2, 3], [4, 5, 6], [7, 8, 9], [10 :: nat]] \<and>
   length [[1, 2, 3], [4, 5, 6], [7, 8, 9], [10 :: nat]] \<noteq> nat (3 div 1)"
proof -
  have h1: "run_eval [1, 2, 3, 4, 5, 6, 7, 8, 9, 10 :: nat] 1 3
     = Inr [[1, 2, 3], [4, 5, 6], [7, 8, 9], [10]]" by code_simp
  have h2: "(0 :: int) < 3 div 1" by simp
  have h3: "int (3 :: nat) = int (length [1, 2, 3, 4, 5, 6, 7, 8, 9, 10 :: nat]) div (3 div 1)"
    by simp
  from run_eval_chunks [OF h1 h2 h3] h1 h2 h3 show ?thesis by simp
qed

text \<open>
  C8: \<open>run_eval\<close> dispatches only if \<open>num_gpus_total\<close> is a multiple of
  \<open>num_gpus_per_model\<close> and there are at least as many questions as groups. If it is
  not a multiple the assertion fails; if there are fewer questions than groups,
  \<open>chunk_size\<close> is 0 and \<open>range\<close> raises \<open>ValueError\<close>.
\<close>

theorem run_eval_preconditions:
  "(run_eval questions per tot = Inr chunks \<longrightarrow>
      per \<noteq> 0 \<and> tot mod per = 0 \<and> tot div per \<le> int (length questions)) \<and>
   (per \<noteq> 0 \<and> tot mod per \<noteq> 0 \<longrightarrow> run_eval questions per tot = Inl AssertionError) \<and>
   (per \<noteq> 0 \<and> tot mod per = 0 \<and> int (length questions) < tot div per \<longrightarrow>
      int (length questions) div (tot div per) = 0 \<and>
      run_eval questions per tot = Inl (ValueError ''range() arg 3 must not be zero''))"
proof -
  have low: "int (length questions) div (tot div per) = 0 \<and>
      run_eval questions per tot = Inl (ValueError ''range() arg 3 must not be zero'')"
    if h: "per \<noteq> 0" "tot mod per = 0" "int (length questions) < tot div per"
  proof -
    have z: "int (length questions) div (tot div per) = 0"
      using h(3) by (simp add: div_pos_pos_trivial)
    have "tot div per \<noteq> 0" using h(3) by auto
    then show ?thesis using h z by (simp add: run_eval_def py_range_def)
  qed
  have a: "per \<noteq> 0 \<and> tot mod per = 0 \<and> tot div per \<le> int (length questions)"
    if ok: "run_eval questions per tot = Inr chunks"
  proof -
    have nz: "per \<noteq> 0" "tot mod per = 0"
      using ok by (auto simp: run_eval_def split: if_splits)
    have "tot div per \<le> int (length questions)"
    proof (rule ccontr)
      assume "\<not> tot div per \<le> int (length questions)"
      then have "int (length questions) < tot div per" by simp
      from low [OF nz this] ok show False by simp
    qed
    with nz show ?thesis by simp
  qed
  have b: "run_eval questions per tot = Inl AssertionError"
    if "per \<noteq> 0 \<and> tot mod per \<noteq> 0"
    using that by (simp add: run_eval_def)
  show ?thesis
  proof (intro conjI)
    show "run_eval questions per tot = Inr chunks \<longrightarrow>
      per \<noteq> 0 \<and> tot mod per = 0 \<and> tot div per \<le> int (length questions)"
      using a by (rule impI)
    show "per \<noteq> 0 \<and> tot mod per \<noteq> 0 \<longrightarrow> run_eval questions per tot = Inl AssertionError"
      using b by (rule impI)
    show "per \<noteq> 0 \<and> tot mod per = 0 \<and> int (length questions) < tot div per \<longrightarrow>
      int (length questions) div (tot div per) = 0 \<and>
      run_eval questions per tot = Inl (ValueError ''range() arg 3 must not be zero'')"
    proof
      assume "per \<noteq> 0 \<and> tot mod per = 0 \<and> int (length questions) < tot div per"
      then have "per \<noteq> 0" "tot mod per = 0" "int (length questions) < tot div per"
        by (rule conjunct1, rule conjunct2 [THEN conjunct1], rule conjunct2 [THEN conjunct2])
      then show "int (length questions) div (tot div per) = 0 \<and>
         run_eval questions per tot = Inl (ValueError ''range() arg 3 must not be zero'')"
        by (rule low)
    qed
  qed
qed

theorem run_eval_preconditions_witness:
  "run_eval [1, 2, 3 :: nat] 1 3 = Inr [[1], [2], [3]] \<and>
   (3 :: int) mod 1 = 0 \<and> (3 :: int) div 1 \<le> int (length [1, 2, 3 :: nat]) \<and>
   (2 :: int) \<noteq> 0 \<and> (3 :: int) mod 2 \<noteq> 0 \<and>
   run_eval [1, 2, 3 :: nat] 2 3 = Inl AssertionError \<and>
   int (length [1, 2 :: nat]) < 3 div 1 \<and>
   run_eval [1, 2 :: nat] 1 3 = Inl (ValueError ''range() arg 3 must not be zero'')"
proof -
  have h1: "run_eval [1, 2, 3 :: nat] 1 3 = Inr [[1], [2], [3]]" by code_simp
  have h2: "(2 :: int) \<noteq> 0 \<and> (3 :: int) mod 2 \<noteq> 0" by simp
  have h3: "(1 :: int) \<noteq> 0 \<and> (3 :: int) mod 1 = 0 \<and> int (length [1, 2 :: nat]) < 3 div 1" by simp
  from run_eval_preconditions [of "[1, 2, 3 :: nat]" 1 3 "[[1], [2], [3]]"]
       run_eval_preconditions [of "[1, 2, 3 :: nat]" 2 3]
       run_eval_preconditions [of "[1, 2 :: nat]" 1 3]
       h1 h2 h3
  show ?thesis by simp
qed

subsection \<open>\<open>StopAfterEosTextGenerated\<close>\<close>



lemma tail3:
  assumes "3 \<le> length r"
  shows "py_slice r (- int (length stop_token_ids_const)) (int (length r)) = drop (length r - 3) r"
proof -
  have "nat (int (length r) - (int (length r) - 3)) = 3" by simp
  moreover have "nat (int (length r) - 3) = length r - 3" by simp
  moreover have "length (drop (length r - 3) r) = 3" using assms by simp
  ultimately show ?thesis using assms
    by (simp add: py_slice_def stop_token_ids_const_def Let_def max_def)
qed

lemma zip_eq3:
  assumes "length t = 3"
  shows "list_all (\<lambda>(a, b). a = b) (zip t stop_token_ids_const) = (t = [15501, 281, 926])"
proof -
  from assms obtain a b c where "t = [a, b, c]"
    by (cases t; cases "tl t"; cases "tl (tl t)") auto
  then show ?thesis by (auto simp: stop_token_ids_const_def)
qed

lemma stop_sample_ids_wide:
  assumes "wf_tensor2 ids" "3 \<le> size1 ids"
  shows "stop_sample_ids ids =
           Inr (map (\<lambda>r. drop (size1 ids - 3) r = [15501, 281, 926]) (rows ids))"
proof -
  have w: "min (length stop_token_ids_const) (size1 ids) = length stop_token_ids_const"
    using assms(2) by (simp add: stop_token_ids_const_def)
  have "\<And>r. r \<in> set (rows ids) \<Longrightarrow>
          list_all (\<lambda>(a, b). a = b)
            (zip (py_slice r (- int (length stop_token_ids_const)) (int (length r))) stop_token_ids_const)
          = (drop (size1 ids - 3) r = [15501, 281, 926])"
  proof -
    fix r assume "r \<in> set (rows ids)"
    then have l: "length r = size1 ids" using assms(1) by (simp add: wf_tensor2_def list_all_iff)
    then have "3 \<le> length r" using assms(2) by simp
    then have "py_slice r (- int (length stop_token_ids_const)) (int (length r)) = drop (length r - 3) r"
      by (rule tail3)
    moreover have "length (drop (length r - 3) r) = 3" using \<open>3 \<le> length r\<close> by simp
    ultimately show "list_all (\<lambda>(a, b). a = b)
            (zip (py_slice r (- int (length stop_token_ids_const)) (int (length r))) stop_token_ids_const)
          = (drop (size1 ids - 3) r = [15501, 281, 926])"
      using zip_eq3 l by simp
  qed
  then have "map (\<lambda>t. list_all (\<lambda>(a, b). a = b) (zip t stop_token_ids_const))
               (map (\<lambda>r. py_slice r (- int (length stop_token_ids_const)) (int (length r)))
                  (rows ids))
           = map (\<lambda>r. drop (size1 ids - 3) r = [15501, 281, 926]) (rows ids)"
    by (simp add: comp_def cong: map_cong)
  then show ?thesis unfolding stop_sample_ids_def Let_def w by simp
qed

lemma stop_sample_ids_one:
  assumes "wf_tensor2 ids" "size1 ids = 1"
  shows "stop_sample_ids ids = Inr (map (\<lambda>r. False) (rows ids))"
proof -
  have w: "min (length stop_token_ids_const) (size1 ids) = 1"
    using assms(2) by (simp add: stop_token_ids_const_def)
  have "\<And>r. r \<in> set (rows ids) \<Longrightarrow>
          list_all (\<lambda>b. list_all (\<lambda>a. a = b)
             (py_slice r (- int (length stop_token_ids_const)) (int (length r)))) stop_token_ids_const
          = False"
  proof -
    fix r assume "r \<in> set (rows ids)"
    then have "length r = 1" using assms by (simp add: wf_tensor2_def list_all_iff)
    then obtain x where "r = [x]" by (cases r) auto
    then show "list_all (\<lambda>b. list_all (\<lambda>a. a = b)
             (py_slice r (- int (length stop_token_ids_const)) (int (length r)))) stop_token_ids_const
          = False"
      by (auto simp: py_slice_def stop_token_ids_const_def)
  qed
  then have "map (\<lambda>t. list_all (\<lambda>b. list_all (\<lambda>a. a = b) t) stop_token_ids_const)
               (map (\<lambda>r. py_slice r (- int (length stop_token_ids_const)) (int (length r)))
                  (rows ids))
           = map (\<lambda>r. False) (rows ids)"
    by (simp add: comp_def cong: map_cong)
  then show ?thesis unfolding stop_sample_ids_def Let_def w
    by (simp add: stop_token_ids_const_def)
qed




lemma forced_eos_row_ok:
  assumes "- int n \<le> eos" "eos < int n"
  shows "forced_eos_row n eos =
           Inr ((replicate n NegInf)[nat (if eos < 0 then eos + int n else eos) := Score 0])"
  using assms by (simp add: forced_eos_row_def)

lemma call_unchanged_short:
  "int (size1 ids) \<le> base_len self \<Longrightarrow> StopAfterEosTextGenerated_call self ids scores = Inr scores"
  by (simp add: StopAfterEosTextGenerated_call_def)

lemma call_rewrites:
  assumes big: "base_len self < int (size1 ids)"
      and eos: "- int (size1 scores) \<le> eos_token_id self" "eos_token_id self < int (size1 scores)"
      and sel: "stop_sample_ids ids = Inr (map P (rows ids))"
      and bat: "length (rows ids) = length (rows scores)"
  shows "StopAfterEosTextGenerated_call self ids scores =
           Inr (scores\<lparr>rows := map (\<lambda>(r, s). if P r
                   then (replicate (size1 scores) NegInf)
                          [nat (if eos_token_id self < 0 then eos_token_id self + int (size1 scores)
                                else eos_token_id self) := Score 0]
                   else s) (zip (rows ids) (rows scores))\<rparr>)"
proof -
  have z: "\<And>f. map (\<lambda>(m, r). if m then f else r) (zip (map P (rows ids)) (rows scores))
         = map (\<lambda>(r, s). if P r then f else s) (zip (rows ids) (rows scores))"
    by (simp add: zip_map1 case_prod_beta comp_def)
  show ?thesis
    using big bat
    by (simp add: StopAfterEosTextGenerated_call_def forced_eos_row_ok [OF eos] sel z)
qed

text \<open>
  C3 (amended): when the sequence length is at most \<open>base_len\<close> the scores are
  returned unchanged. When it exceeds \<open>base_len\<close> and is at least 3 (or is 1), the
  two tensors have the same number of rows and \<open>eos_token_id\<close> is an index of the
  vocabulary axis, the call returns scores of the same shape in which every row whose
  last three token ids are 15501, 281, 926 is \<open>-inf\<close> everywhere except for
  \<open>0\<close> at \<open>eos_token_id\<close>, and every other row is unchanged.
\<close>

theorem StopAfterEos_call_spec:
  "(int (size1 ids) \<le> base_len self \<longrightarrow>
      StopAfterEosTextGenerated_call self ids scores = Inr scores) \<and>
   (base_len self < int (size1 ids) \<and> (3 \<le> size1 ids \<or> size1 ids = 1) \<and>
    wf_tensor2 ids \<and> length (rows ids) = length (rows scores) \<and>
    - int (size1 scores) \<le> eos_token_id self \<and> eos_token_id self < int (size1 scores) \<longrightarrow>
      (\<exists>out. StopAfterEosTextGenerated_call self ids scores = Inr out \<and>
         size1 out = size1 scores \<and> length (rows out) = length (rows scores) \<and>
         (\<forall>i<length (rows scores).
            rows out ! i =
              (if drop (size1 ids - 3) (rows ids ! i) = [15501, 281, 926]
               then (replicate (size1 scores) NegInf)
                      [nat (if eos_token_id self < 0 then eos_token_id self + int (size1 scores)
                            else eos_token_id self) := Score 0]
               else rows scores ! i))))"
proof (intro conjI impI)
  assume "int (size1 ids) \<le> base_len self"
  then show "StopAfterEosTextGenerated_call self ids scores = Inr scores"
    by (rule call_unchanged_short)
next
  assume h: "base_len self < int (size1 ids) \<and> (3 \<le> size1 ids \<or> size1 ids = 1) \<and>
    wf_tensor2 ids \<and> length (rows ids) = length (rows scores) \<and>
    - int (size1 scores) \<le> eos_token_id self \<and> eos_token_id self < int (size1 scores)"
  then have big: "base_len self < int (size1 ids)" and w: "3 \<le> size1 ids \<or> size1 ids = 1"
    and wf: "wf_tensor2 ids" and bat: "length (rows ids) = length (rows scores)"
    and eos: "- int (size1 scores) \<le> eos_token_id self" "eos_token_id self < int (size1 scores)"
    by simp_all
  define forced where "forced = (replicate (size1 scores) NegInf)
                      [nat (if eos_token_id self < 0 then eos_token_id self + int (size1 scores)
                            else eos_token_id self) := Score 0]"
  have sel: "stop_sample_ids ids =
               Inr (map (\<lambda>r. drop (size1 ids - 3) r = [15501, 281, 926]) (rows ids))"
  proof (cases "3 \<le> size1 ids")
    case True
    then show ?thesis by (rule stop_sample_ids_wide [OF wf])
  next
    case False
    with w have one: "size1 ids = 1" by simp
    have "\<And>r. r \<in> set (rows ids) \<Longrightarrow> (drop (size1 ids - 3) r = [15501, 281, 926]) = False"
    proof -
      fix r assume "r \<in> set (rows ids)"
      then have "length r = 1" using wf one by (simp add: wf_tensor2_def list_all_iff)
      then show "(drop (size1 ids - 3) r = [15501, 281, 926]) = False" using one by auto
    qed
    then have "map (\<lambda>r. drop (size1 ids - 3) r = [15501, 281, 926]) (rows ids)
                 = map (\<lambda>r. False) (rows ids)"
      by (simp cong: map_cong)
    then show ?thesis using stop_sample_ids_one [OF wf one] by simp
  qed
  let ?out = "scores\<lparr>rows := map (\<lambda>(r, s). if drop (size1 ids - 3) r = [15501, 281, 926]
                   then forced else s) (zip (rows ids) (rows scores))\<rparr>"
  have c: "StopAfterEosTextGenerated_call self ids scores = Inr ?out"
    unfolding forced_def by (rule call_rewrites [OF big eos sel bat])
  have "\<forall>i<length (rows scores). rows ?out ! i =
              (if drop (size1 ids - 3) (rows ids ! i) = [15501, 281, 926]
               then forced else rows scores ! i)"
    using bat by simp
  moreover have "size1 ?out = size1 scores" "length (rows ?out) = length (rows scores)"
    using bat by simp_all
  ultimately show "\<exists>out. StopAfterEosTextGenerated_call self ids scores = Inr out \<and>
         size1 out = size1 scores \<and> length (rows out) = length (rows scores) \<and>
         (\<forall>i<length (rows scores).
            rows out ! i =
              (if drop (size1 ids - 3) (rows ids ! i) = [15501, 281, 926]
               then (replicate (size1 scores) NegInf)
                      [nat (if eos_token_id self < 0 then eos_token_id self + int (size1 scores)
                            else eos_token_id self) := Score 0]
               else rows scores ! i))"
    using c unfolding forced_def by blast
qed

text \<open>
  C3 (as stated): rows that do not end in the three stop tokens keep their scores
  whenever the sequence length exceeds \<open>base_len\<close>. With a sequence of two tokens
  and \<open>base_len = 1\<close> the slice \<open>input_ids[:, -3:]\<close> has two columns, the comparison
  with the three stop tokens raises, and no scores are returned.
\<close>

theorem StopAfterEos_width2_counterexample:
  "base_len \<lparr>base_len = 1, eos_token_id = 0\<rparr> < int (size1 \<lparr>size1 = 2, rows = [[5, 6 :: int]]\<rparr>) \<and>
   StopAfterEosTextGenerated_call \<lparr>base_len = 1, eos_token_id = 0\<rparr>
      \<lparr>size1 = 2, rows = [[5, 6]]\<rparr> \<lparr>size1 = 2, rows = [[Score 1, Score 2]]\<rparr>
     = Inl (RuntimeError ''The size of tensor a must match the size of tensor b'')"
  by code_simp

theorem StopAfterEos_call_spec_witness:
  "base_len \<lparr>base_len = 2, eos_token_id = 1\<rparr>
     < int (size1 \<lparr>size1 = 4, rows = [[7, 15501, 281, 926], [15501, 281, 926, 7 :: int]]\<rparr>) \<and>
   wf_tensor2 \<lparr>size1 = 4, rows = [[7, 15501, 281, 926], [15501, 281, 926, 7 :: int]]\<rparr> \<and>
   StopAfterEosTextGenerated_call \<lparr>base_len = 2, eos_token_id = 1\<rparr>
      \<lparr>size1 = 4, rows = [[7, 15501, 281, 926], [15501, 281, 926, 7]]\<rparr>
      \<lparr>size1 = 3, rows = [[Score 1, Score 2, Score 3], [Score 4, Score 5, Score 6]]\<rparr>
     = Inr \<lparr>size1 = 3, rows = [[NegInf, Score 0, NegInf], [Score 4, Score 5, Score 6]]\<rparr> \<and>
   StopAfterEosTextGenerated_call \<lparr>base_len = 4, eos_token_id = 1\<rparr>
      \<lparr>size1 = 4, rows = [[7, 15501, 281, 926], [15501, 281, 926, 7]]\<rparr>
      \<lparr>size1 = 3, rows = [[Score 1, Score 2, Score 3], [Score 4, Score 5, Score 6]]\<rparr>
     = Inr \<lparr>size1 = 3, rows = [[Score 1, Score 2, Score 3], [Score 4, Score 5, Score 6]]\<rparr>"
proof -
  let ?ids = "\<lparr>size1 = 4, rows = [[7, 15501, 281, 926], [15501, 281, 926, 7 :: int]]\<rparr>"
  let ?sc = "\<lparr>size1 = 3, rows = [[Score 1, Score 2, Score 3], [Score 4, Score 5, Score 6]]\<rparr>"
  let ?p = "\<lparr>base_len = 2, eos_token_id = 1\<rparr>"
  have h: "base_len ?p < int (size1 ?ids) \<and> (3 \<le> size1 ?ids \<or> size1 ?ids = 1) \<and>
    wf_tensor2 ?ids \<and> length (rows ?ids) = length (rows ?sc) \<and>
    - int (size1 ?sc) \<le> eos_token_id ?p \<and> eos_token_id ?p < int (size1 ?sc)"
    by (simp add: wf_tensor2_def)
  from StopAfterEos_call_spec [of ?ids ?p ?sc] h
  obtain out where o: "StopAfterEosTextGenerated_call ?p ?ids ?sc = Inr out"
     "size1 out = 3" "length (rows out) = 2"
     "\<forall>i<2. rows out ! i =
              (if drop (4 - 3) (rows ?ids ! i) = [15501, 281, 926]
               then (replicate 3 NegInf)[nat 1 := Score 0]
               else rows ?sc ! i)"
    by auto
  have "rows out ! 0 = [NegInf, Score 0, NegInf]" using o(4) by (simp add: numeral_3_eq_3)
  moreover have "rows out ! 1 = [Score 4, Score 5, Score 6]" using o(4) by simp
  ultimately have "rows out = [[NegInf, Score 0, NegInf], [Score 4, Score 5, Score 6]]"
    using o(3) by (cases "rows out"; cases "tl (rows out)") auto
  then have "out = \<lparr>size1 = 3, rows = [[NegInf, Score 0, NegInf], [Score 4, Score 5, Score 6]]\<rparr>"
    using o(2) by (cases out) simp
  moreover have "StopAfterEosTextGenerated_call \<lparr>base_len = 4, eos_token_id = 1\<rparr> ?ids ?sc = Inr ?sc"
    using StopAfterEos_call_spec [of ?ids "\<lparr>base_len = 4, eos_token_id = 1\<rparr>" ?sc] by simp
  ultimately show ?thesis using o(1) h by simp
qed

subsection \<open>\<open>reorg_answer_file\<close>\<close>


subsection \<open>Text lines\<close>

lemma universal_newlines_no_CR: "CR \<notin> set (universal_newlines b s)"
  by (induction s arbitrary: b) (auto simp: CR_def LF_def)

lemma universal_newlines_id: "CR \<notin> set s \<Longrightarrow> universal_newlines False s = s"
  by (induction s) auto

lemma concat_splitlines_keep: "concat (splitlines_keep s) = s"
  by (induction s) (auto split: list.splits)

lemma splitlines_keep_lines:
  "l \<in> set (splitlines_keep s) \<Longrightarrow> l \<noteq> [] \<and> LF \<notin> set (butlast l)"
proof (induction s arbitrary: l)
  case Nil
  then show ?case by simp
next
  case (Cons c cs)
  show ?case
  proof (cases "c = LF")
    case True
    with Cons show ?thesis by auto
  next
    case False
    show ?thesis
    proof (cases "splitlines_keep cs")
      case Nil
      with False Cons.prems show ?thesis by auto
    next
      case (Cons l' ls)
      with False Cons.prems have "l = c # l' \<or> l \<in> set ls" by auto
      then show ?thesis
      proof
        assume l: "l = c # l'"
        have "l' \<in> set (splitlines_keep cs)" using Cons by simp
        from Cons.IH [OF this] have "l' \<noteq> []" "LF \<notin> set (butlast l')" by simp_all
        with l False show ?thesis by auto
      next
        assume "l \<in> set ls"
        then have "l \<in> set (splitlines_keep cs)" using Cons by simp
        then show ?thesis by (rule Cons.IH)
      qed
    qed
  qed
qed

lemma splitlines_keep_line:
  assumes "l \<noteq> []" "last l = LF" "LF \<notin> set (butlast l)"
  shows "splitlines_keep (l @ s) = l # splitlines_keep s"
  using assms
proof (induction l)
  case Nil
  then show ?case by simp
next
  case (Cons c l)
  show ?case
  proof (cases "l = []")
    case True
    with Cons.prems show ?thesis by simp
  next
    case False
    with Cons.prems have c: "c \<noteq> LF" and l: "last l = LF" "LF \<notin> set (butlast l)" by auto
    from Cons.IH [OF False l] c show ?thesis by simp
  qed
qed

lemma splitlines_keep_concat:
  "\<forall>l\<in>set ls. l \<noteq> [] \<and> last l = LF \<and> LF \<notin> set (butlast l) \<Longrightarrow>
   splitlines_keep (concat ls) = ls"
  by (induction ls) (simp_all add: splitlines_keep_line)

lemma read_lines_no_CR: "l \<in> set (read_lines content) \<Longrightarrow> CR \<notin> set l"
proof -
  assume "l \<in> set (read_lines content)"
  then have "set l \<subseteq> set (concat (read_lines content))" by auto
  also have "concat (read_lines content) = universal_newlines False content"
    by (simp add: read_lines_def concat_splitlines_keep)
  finally show ?thesis using universal_newlines_no_CR by blast
qed

lemma read_lines_concat:
  assumes "set out \<subseteq> set (read_lines content)" "\<forall>l\<in>set out. last l = LF"
  shows "read_lines (concat out) = out"
proof -
  have "CR \<notin> set (concat out)" using assms(1) read_lines_no_CR by fastforce
  then have u: "universal_newlines False (concat out) = concat out" by (rule universal_newlines_id)
  have "\<forall>l\<in>set out. l \<noteq> [] \<and> last l = LF \<and> LF \<notin> set (butlast l)"
    using assms splitlines_keep_lines unfolding read_lines_def by blast
  then show ?thesis unfolding read_lines_def u by (rule splitlines_keep_concat)
qed

subsection \<open>Dictionaries\<close>

lemma map_of_dict_set: "map_of (dict_set d k v) = (map_of d)(k \<mapsto> v)"
  by (induction d) (auto simp: fun_eq_iff)

lemma keys_dict_set: "fst ` set (dict_set d k v) = insert k (fst ` set d)"
proof (induction d)
  case Nil
  then show ?case by simp
next
  case (Cons p d)
  obtain a b where p: "p = (a, b)" by (cases p)
  show ?case unfolding p by (cases "a = k") (simp_all add: Cons.IH insert_commute)
qed

lemma distinct_dict_set: "distinct (map fst d) \<Longrightarrow> distinct (map fst (dict_set d k v))"
proof (induction d)
  case Nil
  then show ?case by simp
next
  case (Cons p d)
  obtain a b where p: "p = (a, b)" by (cases p)
  show ?case
  proof (cases "a = k")
    case True
    with Cons.prems show ?thesis unfolding p by simp
  next
    case False
    with Cons show ?thesis unfolding p by (simp add: keys_dict_set)
  qed
qed




lemma load_answers_fold:
  "\<forall>l\<in>set ls. qid_of l = Inr (q l) \<Longrightarrow>
   load_answers qid_of ls d = Inr (fold (\<lambda>l d. dict_set d (q l) l) ls d)"
  by (induction ls arbitrary: d) simp_all

lemma distinct_fold_dict_set:
  "distinct (map fst d) \<Longrightarrow> distinct (map fst (fold (\<lambda>l d. dict_set d (q l) l) ls d))"
  by (induction ls arbitrary: d) (simp_all add: distinct_dict_set)

lemma keys_fold_dict_set:
  "fst ` set (fold (\<lambda>l d. dict_set d (q l) l) ls d) = fst ` set d \<union> q ` set ls"
  by (induction ls arbitrary: d) (simp_all add: keys_dict_set)

lemma map_of_fold_dict_set:
  "map_of (fold (\<lambda>l d. dict_set d (q l) l) ls d) k =
     (case filter (\<lambda>l. q l = k) ls of
        [] \<Rightarrow> map_of d k
      | x # xs \<Rightarrow> Some (last (x # xs)))"
proof (induction ls arbitrary: d)
  case Nil
  then show ?case by simp
next
  case (Cons l ls)
  show ?case
  proof (cases "filter (\<lambda>l. q l = k) ls")
    case Nil
    then show ?thesis using Cons.IH [of "dict_set d (q l) l"]
      by (cases "q l = k") (simp_all add: map_of_dict_set)
  next
    case (Cons x xs)
    then show ?thesis using Cons.IH [of "dict_set d (q l) l"]
      by (cases "q l = k") simp_all
  qed
qed

lemma write_answers_ok:
  "\<forall>k\<in>set ks. \<exists>v. map_of d k = Some v \<Longrightarrow>
   write_answers d ks acc = Inr (acc @ concat (map (\<lambda>k. the (map_of d k)) ks))"
  by (induction ks arbitrary: acc) (auto simp: dict_get_def)

lemma sort_distinct: "distinct xs \<Longrightarrow> sort xs = sorted_list_of_set (set xs)"
  by (simp add: sorted_list_of_set_sort_remdups distinct_remdups_id)

lemma reorg_content_ok:
  assumes q: "\<forall>l\<in>set (read_lines content). qid_of l = Inr (q l)"
  shows "reorg_content qid_of content =
           Inr (concat (map (\<lambda>k. last (filter (\<lambda>l. q l = k) (read_lines content)))
                            (sorted_list_of_set (q ` set (read_lines content)))))"
proof -
  let ?ls = "read_lines content"
  define d' where "d' = fold (\<lambda>l d. dict_set d (q l) l) ?ls []"
  have r: "load_answers qid_of ?ls [] = Inr d'"
    unfolding d'_def using q by (rule load_answers_fold)
  have di: "distinct (map fst d')"
    unfolding d'_def by (rule distinct_fold_dict_set) simp
  have ks: "fst ` set d' = q ` set ?ls"
    unfolding d'_def by (simp add: keys_fold_dict_set)
  have mp: "\<And>k. map_of d' k = (case filter (\<lambda>l. q l = k) ?ls of
                                  [] \<Rightarrow> None
                                | x # xs \<Rightarrow> Some (last (x # xs)))"
    unfolding d'_def by (simp add: map_of_fold_dict_set cong: list.case_cong)
  have so: "sort (map fst d') = sorted_list_of_set (q ` set ?ls)"
    using sort_distinct [OF di] ks by simp
  have val: "map_of d' k = Some (last (filter (\<lambda>l. q l = k) ?ls))" if "k \<in> q ` set ?ls" for k
  proof -
    from that have "filter (\<lambda>l. q l = k) ?ls \<noteq> []" by (auto simp: filter_empty_conv)
    then show ?thesis using mp [of k]
      by (cases "filter (\<lambda>l. q l = k) ?ls") simp_all
  qed
  have ex: "\<forall>k\<in>set (sorted_list_of_set (q ` set ?ls)). \<exists>v. map_of d' k = Some v"
    using val by simp
  have "map (\<lambda>k. the (map_of d' k)) (sorted_list_of_set (q ` set ?ls))
         = map (\<lambda>k. last (filter (\<lambda>l. q l = k) ?ls)) (sorted_list_of_set (q ` set ?ls))"
    by (rule map_cong [OF refl]) (simp add: val)
  with write_answers_ok [OF ex, of "[]"] r so show ?thesis
    by (simp add: reorg_content_def)
qed

text \<open>
  C2 (amended): for an answer file in which every line read is a JSON record with a
  \<open>question_id\<close> and ends with a newline (also the last one), \<open>reorg_answer_file\<close>
  rewrites the file to the lines \<open>out\<close>: for each distinct question id, in ascending
  order, the last line of the file with that id. Read again, the file has exactly
  these lines, one per distinct id, with strictly increasing ids.
\<close>

theorem reorg_answer_file_sorted_dedup:
  fixes q :: "string \<Rightarrow> 'k::linorder"
  assumes fl: "fs answer_file = Some content"
      and rec: "\<forall>l\<in>set (read_lines content). qid_of l = Inr (q l)"
      and nl: "\<forall>l\<in>set (read_lines content). last l = LF"
      and out: "out = map (\<lambda>k. last (filter (\<lambda>l. q l = k) (read_lines content)))
                          (sorted_list_of_set (q ` set (read_lines content)))"
  shows "reorg_answer_file qid_of fs answer_file = Inr (fs(answer_file \<mapsto> concat out)) \<and>
         read_lines (concat out) = out \<and>
         set out \<subseteq> set (read_lines content) \<and>
         map q out = sorted_list_of_set (q ` set (read_lines content)) \<and>
         sorted_wrt (<) (map q out) \<and>
         q ` set out = q ` set (read_lines content) \<and>
         length out = card (q ` set (read_lines content))"
proof -
  let ?ls = "read_lines content"
  let ?K = "sorted_list_of_set (q ` set ?ls)"
  have mem: "last (filter (\<lambda>l. q l = k) ?ls) \<in> set ?ls \<and> q (last (filter (\<lambda>l. q l = k) ?ls)) = k"
    if "k \<in> q ` set ?ls" for k
  proof -
    from that have ne: "filter (\<lambda>l. q l = k) ?ls \<noteq> []" by (auto simp: filter_empty_conv)
    then have "last (filter (\<lambda>l. q l = k) ?ls) \<in> set (filter (\<lambda>l. q l = k) ?ls)"
      by (rule last_in_set)
    then show ?thesis by simp
  qed
  have 1: "reorg_answer_file qid_of fs answer_file = Inr (fs(answer_file \<mapsto> concat out))"
    using fl reorg_content_ok [OF rec] by (simp add: reorg_answer_file_def out)
  have 3: "set out \<subseteq> set ?ls" unfolding out using mem by auto
  have 2: "read_lines (concat out) = out"
    using 3 nl by (intro read_lines_concat) auto
  have 4: "map q out = ?K"
  proof -
    have "map (\<lambda>k. q (last (filter (\<lambda>l. q l = k) ?ls))) ?K = ?K"
      by (rule map_idI) (simp add: mem)
    then show ?thesis unfolding out map_map comp_def .
  qed
  have 5: "sorted_wrt (<) (map q out)" unfolding 4 by simp
  have 6: "q ` set out = q ` set ?ls"
  proof -
    have "q ` set out = set (map q out)" by simp
    also have "\<dots> = q ` set ?ls" unfolding 4 by simp
    finally show ?thesis .
  qed
  have "length out = length ?K" unfolding out by simp
  then have 7: "length out = card (q ` set ?ls)" by simp
  from 1 2 3 4 5 6 7 show ?thesis by (intro conjI)
qed


text \<open>
  C2 (as stated): every file whose lines are JSON records with a \<open>question_id\<close> has,
  afterwards, one record per distinct id. A file whose last line has no newline and
  does not have the largest id is a counterexample: the line is written back in front
  of another one and the two share a line, which is no longer a JSON record.
\<close>

theorem reorg_no_final_newline_counterexample:
  \<open>read_lines (''{"question_id": 2}'' @ [LF] @ ''{"question_id": 1}'')
     = [''{"question_id": 2}'' @ [LF], ''{"question_id": 1}''] \<and>
   demo_qid_of (''{"question_id": 2}'' @ [LF]) = Inr 2 \<and>
   demo_qid_of ''{"question_id": 1}'' = Inr 1 \<and>
   (case reorg_answer_file demo_qid_of
           [''a.jsonl'' \<mapsto> ''{"question_id": 2}'' @ [LF] @ ''{"question_id": 1}''] ''a.jsonl''
    of Inl e \<Rightarrow> None | Inr fs \<Rightarrow> fs ''a.jsonl'')
     = Some (''{"question_id": 1}{"question_id": 2}'' @ [LF]) \<and>
   read_lines (''{"question_id": 1}{"question_id": 2}'' @ [LF])
     = [''{"question_id": 1}{"question_id": 2}'' @ [LF]] \<and>
   demo_qid_of (''{"question_id": 1}{"question_id": 2}'' @ [LF])
     = Inl (ValueError ''not one record with a question_id'')\<close>
  by code_simp

theorem reorg_answer_file_sorted_dedup_witness:
  \<open>read_lines demo_answers
     = [''{"question_id": 2}'' @ [LF], ''{"question_id": 1}'' @ [LF], '' {"question_id": 2}'' @ [LF]] \<and>
   map demo_qid_of (read_lines demo_answers) = [Inr 2, Inr 1, Inr 2] \<and>
   map last (read_lines demo_answers) = [LF, LF, LF] \<and>
   (case reorg_answer_file demo_qid_of [''a.jsonl'' \<mapsto> demo_answers] ''a.jsonl''
    of Inl e \<Rightarrow> None | Inr fs \<Rightarrow> fs ''a.jsonl'')
     = Some (concat [''{"question_id": 1}'' @ [LF], '' {"question_id": 2}'' @ [LF]]) \<and>
   read_lines (concat [''{"question_id": 1}'' @ [LF], '' {"question_id": 2}'' @ [LF]])
     = [''{"question_id": 1}'' @ [LF], '' {"question_id": 2}'' @ [LF]]\<close>
proof -
  let ?out = \<open>[''{"question_id": 1}'' @ [LF], '' {"question_id": 2}'' @ [LF]]\<close>
  have h1: "[''a.jsonl'' \<mapsto> demo_answers] ''a.jsonl'' = Some demo_answers" by simp
  have h2: "\<forall>l\<in>set (read_lines demo_answers). demo_qid_of l = Inr (demo_qid l)" by code_simp
  have h3: "\<forall>l\<in>set (read_lines demo_answers). last l = LF" by code_simp
  have h4: "?out = map (\<lambda>k. last (filter (\<lambda>l. demo_qid l = k) (read_lines demo_answers)))
                      (sorted_list_of_set (demo_qid ` set (read_lines demo_answers)))"
    by code_simp
  have e: \<open>read_lines demo_answers
     = [''{"question_id": 2}'' @ [LF], ''{"question_id": 1}'' @ [LF], '' {"question_id": 2}'' @ [LF]] \<and>
   map demo_qid_of (read_lines demo_answers) = [Inr 2, Inr 1, Inr 2] \<and>
   map last (read_lines demo_answers) = [LF, LF, LF]\<close> by code_simp
  note t = reorg_answer_file_sorted_dedup
         [where fs = "[''a.jsonl'' \<mapsto> demo_answers]" and answer_file = "''a.jsonl''",
          OF h1 h2 h3 h4]
  from t have a: "reorg_answer_file demo_qid_of [''a.jsonl'' \<mapsto> demo_answers] ''a.jsonl''
                   = Inr ([''a.jsonl'' \<mapsto> demo_answers](''a.jsonl'' \<mapsto> concat ?out))"
    by (rule conjunct1)
  from t have b: "read_lines (concat ?out) = ?out"
    by (rule conjunct2 [THEN conjunct1])
  have c: "(case reorg_answer_file demo_qid_of [''a.jsonl'' \<mapsto> demo_answers] ''a.jsonl''
            of Inl e \<Rightarrow> None | Inr fs \<Rightarrow> fs ''a.jsonl'') = Some (concat ?out)"
    by (simp only: a sum.case fun_upd_same)
  note e1 = e [THEN conjunct1] and e2 = e [THEN conjunct2, THEN conjunct1]
    and e3 = e [THEN conjunct2, THEN conjunct2]
  show ?thesis by (rule conjI [OF e1 conjI [OF e2 conjI [OF e3 conjI [OF c b]]]])
qed

subsection \<open>The handler of \<open>get_model_answers\<close>\<close>


lemma try_block_generate_raises:
  "fst (generate e kw r) = Inl ex \<Longrightarrow>
   try_block e c kw r = (Inl ex, snd (generate e kw r))"
  by (cases "generate e kw r") (simp add: try_block_def)

lemma try_block_decode_raises:
  "fst (generate e kw r) = Inr out \<Longrightarrow>
   decode e (cut_stop_token_ids c
      (if is_encoder_decoder e then out else drop (length (arg_input_ids kw)) out)) = Inl ex \<Longrightarrow>
   try_block e c kw r = (Inl ex, snd (generate e kw r))"
  by (cases "generate e kw r") (simp add: try_block_def Let_def)

lemma roles_append_message [simp]: "roles (append_message c role m) = roles c"
  by (simp add: append_message_def)




















subsection \<open>Exceptions that are not caught\<close>


lemma run_turns_append:
  "run_turns e M temp q (xs @ ys) s =
     (case run_turns e M temp q xs s of Inl ex \<Rightarrow> Inl ex | Inr s' \<Rightarrow> run_turns e M temp q ys s')"
  by (induction xs arbitrary: s) (simp_all split: sum.splits)

lemma run_choices_append:
  "run_choices e mid M temp q (xs @ ys) s =
     (case run_choices e mid M temp q xs s of
        Inl ex \<Rightarrow> Inl ex | Inr s' \<Rightarrow> run_choices e mid M temp q ys s')"
  by (induction xs arbitrary: s) (simp_all split: sum.splits)

lemma run_questions_append:
  "run_questions e mid f M n (xs @ ys) s =
     (case run_questions e mid f M n xs s of
        Inl ex \<Rightarrow> Inl ex | Inr s' \<Rightarrow> run_questions e mid f M n ys s')"
  by (induction xs arbitrary: s) (simp_all split: sum.splits)

lemma except_other:
  "\<forall>m. ex \<noteq> RuntimeError m \<Longrightarrow> except_RuntimeError q (Inl ex) = Inl ex"
  by (cases ex) (simp_all add: except_RuntimeError_def)

lemma run_turn_tokenizer_raises:
  "tokenizer e (get_prompt e (append_message (append_message c (fst (roles c)) (Some qs))
                                  (snd (roles c)) None)) = Inl ex \<Longrightarrow>
   run_turn e M temp q qs (c, ts, v, r) = Inl ex"
  by (simp add: run_turn_def Let_def)

lemma run_turn_try_raises:
  assumes "tokenizer e (get_prompt e c2) = Inr inp"
      and "c2 = append_message (append_message c (fst (roles c)) (Some qs)) (snd (roles c)) None"
      and "fst (try_block e c2 (generate_kwargs e M temp inp) r) = Inl ex"
      and "\<forall>m. ex \<noteq> RuntimeError m"
  shows "run_turn e M temp q qs (c, ts, v, r) = Inl ex"
proof -
  obtain r' where "try_block e c2 (generate_kwargs e M temp inp) r = (Inl ex, r')"
    using assms(3) by (cases "try_block e c2 (generate_kwargs e M temp inp) r") auto
  then show ?thesis
    using assms(1) except_other [OF assms(4)]
    by (simp add: run_turn_def Let_def assms(2) [symmetric])
qed

lemma run_turn_handler_raises:
  assumes "tokenizer e (get_prompt e c2) = Inr inp"
      and "c2 = append_message (append_message c (fst (roles c)) (Some qs)) (snd (roles c)) None"
      and "fst (try_block e c2 (generate_kwargs e M temp inp) r) = Inl (RuntimeError m)"
      and "question_id q = None"
  shows "run_turn e M temp q qs (c, ts, v, r) = Inl (KeyError ''question_id'')"
proof -
  obtain r' where "try_block e c2 (generate_kwargs e M temp inp) r = (Inl (RuntimeError m), r')"
    using assms(3) by (cases "try_block e c2 (generate_kwargs e M temp inp) r") auto
  then show ?thesis
    using assms(1,4)
    by (simp add: run_turn_def Let_def assms(2) [symmetric] except_RuntimeError_def)
qed




lemma choice_indices_pos: "0 < n \<Longrightarrow> choice_indices n = 0 # map int [1 ..< nat n]"
  by (simp add: choice_indices_def upt_conv_Cons)

text \<open>
  C5 (amended): every exception other than a \<open>RuntimeError\<close> raised in the \<open>try\<close>
  block leaves \<open>get_model_answers\<close>. In a turn: an exception of the tokenizer, and an
  exception of the generation call or of the decoding that is not a
  \<open>RuntimeError\<close>. In a choice: a question without \<open>turns\<close>. In a question: a
  question without \<open>category\<close> or without \<open>question_id\<close>, and a failure to create
  the directory of the answer file or to open the file. In the function: a failure of
  \<open>load_model\<close>. An exception that leaves an iteration of one of the three loops
  leaves the loop, whatever came before, and then the enclosing block.
\<close>

theorem uncaught_exceptions_propagate:
  "(c2 = append_message (append_message c (fst (roles c)) (Some qs)) (snd (roles c)) None \<and>
    tokenizer e (get_prompt e c2) = Inl ex
      \<longrightarrow> run_turn e M temp q qs (c, ts, v, r) = Inl ex) \<and>
   (c2 = append_message (append_message c (fst (roles c)) (Some qs)) (snd (roles c)) None \<and>
    tokenizer e (get_prompt e c2) = Inr inp \<and> (\<forall>m. ex \<noteq> RuntimeError m) \<and>
    (fst (generate e (generate_kwargs e M temp inp) r) = Inl ex \<or>
     (\<exists>out. fst (generate e (generate_kwargs e M temp inp) r) = Inr out \<and>
        decode e (cut_stop_token_ids c2
           (if is_encoder_decoder e then out else drop (length (input_ids inp)) out)) = Inl ex))
      \<longrightarrow> run_turn e M temp q qs (c, ts, v, r) = Inl ex) \<and>
   (run_turns e M temp q pre s = Inr s1 \<and> run_turn e M temp q qs s1 = Inl ex
      \<longrightarrow> run_turns e M temp q (pre @ qs # rest) s = Inl ex) \<and>
   (turns q = None \<longrightarrow> run_choice e mid M temp q i cs = Inl (KeyError ''turns'')) \<and>
   (turns q = Some qss \<and>
    run_turns e M temp q qss (get_conversation_template e mid, [], fst (snd cs), manual_seed e i)
      = Inl ex
      \<longrightarrow> run_choice e mid M temp q i cs = Inl ex) \<and>
   (run_choices e mid M temp q ipre cs = Inr cs1 \<and> run_choice e mid M temp q i cs1 = Inl ex
      \<longrightarrow> run_choices e mid M temp q (ipre @ i # irest) cs = Inl ex) \<and>
   (category q = None \<longrightarrow> question_choices e mid M n q vr = Inl (KeyError ''category'')) \<and>
   (category q = Some ca \<and>
    run_choices e mid M (case temperature_config e ca of Some t \<Rightarrow> t | None \<Rightarrow> 7 / 10) q
       (choice_indices n) ([], fst vr, snd vr) = Inl ex
      \<longrightarrow> question_choices e mid M n q vr = Inl ex) \<and>
   (question_choices e mid M n q (v, rng st) = Inl ex
      \<longrightarrow> run_question e mid f M n q (st, v) = Inl ex) \<and>
   (question_choices e mid M n q (v, rng st) = Inr (choices, v', r') \<and>
    makedirs_open e f = Some ex
      \<longrightarrow> run_question e mid f M n q (st, v) = Inl ex) \<and>
   (question_choices e mid M n q (v, rng st) = Inr (choices, v', r') \<and>
    makedirs_open e f = None \<and> question_id q = None
      \<longrightarrow> run_question e mid f M n q (st, v) = Inl (KeyError ''question_id'')) \<and>
   (run_questions e mid f M n qpre sv = Inr sv1 \<and> run_question e mid f M n q sv1 = Inl ex
      \<longrightarrow> run_questions e mid f M n (qpre @ q # qrest) sv = Inl ex) \<and>
   (load_model e model_path = Some ex
      \<longrightarrow> get_model_answers e model_path mid questions f M n st = Inl ex) \<and>
   (load_model e model_path = None \<and>
    run_questions e mid f M n questions (st, M) = Inl ex
      \<longrightarrow> get_model_answers e model_path mid questions f M n st = Inl ex)"
proof (intro conjI impI; (elim conjE)?)
  assume c2: "c2 = append_message (append_message c (fst (roles c)) (Some qs)) (snd (roles c)) None"
    and "tokenizer e (get_prompt e c2) = Inl ex"
  then show "run_turn e M temp q qs (c, ts, v, r) = Inl ex"
    using run_turn_tokenizer_raises [of e c qs ex M temp q ts v r] by simp
next
  assume c2: "c2 = append_message (append_message c (fst (roles c)) (Some qs)) (snd (roles c)) None"
    and tok: "tokenizer e (get_prompt e c2) = Inr inp"
    and nr: "\<forall>m. ex \<noteq> RuntimeError m"
    and fail: "fst (generate e (generate_kwargs e M temp inp) r) = Inl ex \<or>
     (\<exists>out. fst (generate e (generate_kwargs e M temp inp) r) = Inr out \<and>
        decode e (cut_stop_token_ids c2
           (if is_encoder_decoder e then out else drop (length (input_ids inp)) out)) = Inl ex)"
  have ai: "arg_input_ids (generate_kwargs e M temp inp) = input_ids inp"
    by (simp add: generate_kwargs_def Let_def)
  from fail have "try_block e c2 (generate_kwargs e M temp inp) r
          = (Inl ex, snd (generate e (generate_kwargs e M temp inp) r))"
  proof
    assume "fst (generate e (generate_kwargs e M temp inp) r) = Inl ex"
    then show ?thesis by (rule try_block_generate_raises)
  next
    assume "\<exists>out. fst (generate e (generate_kwargs e M temp inp) r) = Inr out \<and>
        decode e (cut_stop_token_ids c2
           (if is_encoder_decoder e then out else drop (length (input_ids inp)) out)) = Inl ex"
    then obtain out where
      g: "fst (generate e (generate_kwargs e M temp inp) r) = Inr out"
      and d: "decode e (cut_stop_token_ids c2
           (if is_encoder_decoder e then out else drop (length (input_ids inp)) out)) = Inl ex"
      by blast
    show ?thesis by (rule try_block_decode_raises [OF g]) (simp only: ai d)
  qed
  then have "fst (try_block e c2 (generate_kwargs e M temp inp) r) = Inl ex" by simp
  from run_turn_try_raises [OF tok c2 this nr]
  show "run_turn e M temp q qs (c, ts, v, r) = Inl ex" .
next
  assume "run_turns e M temp q pre s = Inr s1" "run_turn e M temp q qs s1 = Inl ex"
  then show "run_turns e M temp q (pre @ qs # rest) s = Inl ex"
    by (simp add: run_turns_append)
next
  assume "turns q = None"
  then show "run_choice e mid M temp q i cs = Inl (KeyError ''turns'')"
    by (cases cs) (simp add: run_choice_def)
next
  assume "turns q = Some qss"
    "run_turns e M temp q qss (get_conversation_template e mid, [], fst (snd cs), manual_seed e i)
      = Inl ex"
  then show "run_choice e mid M temp q i cs = Inl ex"
    by (cases cs) (simp add: run_choice_def)
next
  assume "run_choices e mid M temp q ipre cs = Inr cs1" "run_choice e mid M temp q i cs1 = Inl ex"
  then show "run_choices e mid M temp q (ipre @ i # irest) cs = Inl ex"
    by (simp add: run_choices_append)
next
  assume "category q = None"
  then show "question_choices e mid M n q vr = Inl (KeyError ''category'')"
    by (simp add: question_choices_def)
next
  assume "category q = Some ca"
    "run_choices e mid M (case temperature_config e ca of Some t \<Rightarrow> t | None \<Rightarrow> 7 / 10) q
       (choice_indices n) ([], fst vr, snd vr) = Inl ex"
  then show "question_choices e mid M n q vr = Inl ex"
    by (simp add: question_choices_def)
next
  assume "question_choices e mid M n q (v, rng st) = Inl ex"
  then show "run_question e mid f M n q (st, v) = Inl ex"
    by (simp add: run_question_def)
next
  assume "question_choices e mid M n q (v, rng st) = Inr (choices, v', r')"
    "makedirs_open e f = Some ex"
  then show "run_question e mid f M n q (st, v) = Inl ex"
    by (simp add: run_question_def dump_answer_def)
next
  assume "question_choices e mid M n q (v, rng st) = Inr (choices, v', r')"
    "makedirs_open e f = None" "question_id q = None"
  then show "run_question e mid f M n q (st, v) = Inl (KeyError ''question_id'')"
    by (simp add: run_question_def dump_answer_def)
next
  assume "run_questions e mid f M n qpre sv = Inr sv1" "run_question e mid f M n q sv1 = Inl ex"
  then show "run_questions e mid f M n (qpre @ q # qrest) sv = Inl ex"
    by (simp add: run_questions_append)
next
  assume "load_model e model_path = Some ex"
  then show "get_model_answers e model_path mid questions f M n st = Inl ex"
    by (simp add: get_model_answers_def)
next
  assume "load_model e model_path = None" "run_questions e mid f M n questions (st, M) = Inl ex"
  then show "get_model_answers e model_path mid questions f M n st = Inl ex"
    by (simp add: get_model_answers_def)
qed





text \<open>
  C5 (as stated): a GPU exhaustion during generation propagates and terminates the
  run. The generation call reports it as a \<open>RuntimeError\<close>, which the handler
  catches: the run completes and the record holds \<open>ERROR\<close> for every turn.
\<close>

theorem gpu_exhaustion_caught_counterexample:
  "fst (generate oom_env (generate_kwargs oom_env 1024 0 demo_inputs) 0)
     = Inl (RuntimeError ''CUDA out of memory'') \<and>
   (case get_model_answers oom_env ''path'' ''m'' [demo_question] ''out.jsonl'' 1024 1 demo_state of
      Inl ex \<Rightarrow> None | Inr st \<Rightarrow> files st ''out.jsonl'')
     = Some (''{question_id:|||,answer_id:<id>,model_id:<m>,choices:[{index:,turns:[<ERROR>,<ERROR>,],},],tstamp:<float>,}'' @ [LF])"
  by code_simp

theorem uncaught_exceptions_propagate_witness:
  "load_model demo_env [] = Some (OSError ''no such model'') \<and>
   get_model_answers demo_env [] ''m'' [demo_question] ''out.jsonl'' 1024 1 demo_state
     = Inl (OSError ''no such model'') \<and>
   category (demo_question\<lparr>category := None\<rparr>) = None \<and>
   question_choices demo_env ''m'' 1024 1 (demo_question\<lparr>category := None\<rparr>) (1024, 0)
     = Inl (KeyError ''category'') \<and>
   tokenizer valerr_env (get_prompt valerr_env
      (append_message (append_message demo_conv (fst (roles demo_conv)) (Some ''a''))
         (snd (roles demo_conv)) None)) = Inr demo_inputs \<and>
   fst (generate valerr_env (generate_kwargs valerr_env 1024 0 demo_inputs) 0)
     = Inl (ValueError ''max_new_tokens must be greater than 0'') \<and>
   run_turn valerr_env 1024 0 demo_question ''a'' (demo_conv, [], 1024, 0)
     = Inl (ValueError ''max_new_tokens must be greater than 0'') \<and>
   (case get_model_answers valerr_env ''path'' ''m'' [demo_question] ''out.jsonl'' 1024 1
           demo_state of Inl ex \<Rightarrow> Some ex | Inr st \<Rightarrow> None)
     = Some (ValueError ''max_new_tokens must be greater than 0'')"
proof -
  let ?c2 = "append_message (append_message demo_conv (fst (roles demo_conv)) (Some ''a''))
               (snd (roles demo_conv)) None"
  let ?ex = "ValueError ''max_new_tokens must be greater than 0''"
  have a1: "load_model demo_env [] = Some (OSError ''no such model'')"
    by (simp add: demo_env_def)
  have b1: "category (demo_question\<lparr>category := None\<rparr>) = None" by simp
  have c1: "tokenizer valerr_env (get_prompt valerr_env ?c2) = Inr demo_inputs" by code_simp
  have c2: "fst (generate valerr_env (generate_kwargs valerr_env 1024 0 demo_inputs) 0) = Inl ?ex"
    by (simp add: valerr_env_def)
  have c3: "\<forall>m. ?ex \<noteq> RuntimeError m" by simp
  note th1 = uncaught_exceptions_propagate
      [where e = demo_env and model_path = "[]" and ex = "OSError ''no such model''"
         and mid = "''m''" and questions = "[demo_question]" and f = "''out.jsonl''"
         and M = 1024 and n = 1 and st = demo_state]
  note th2 = uncaught_exceptions_propagate
      [where e = demo_env and q = "demo_question\<lparr>category := None\<rparr>" and mid = "''m''"
         and M = 1024 and n = 1 and vr = "(1024, 0)"]
  note th3 = uncaught_exceptions_propagate
      [where e = valerr_env and c = demo_conv and qs = "''a''" and ?c2.0 = ?c2
         and inp = demo_inputs and ex = ?ex and M = 1024 and temp = 0 and r = 0
         and q = demo_question and ts = "[]" and v = 1024]
  have a2: "get_model_answers demo_env [] ''m'' [demo_question] ''out.jsonl'' 1024 1 demo_state
     = Inl (OSError ''no such model'')"
    by (rule th1 [THEN conjunct2, THEN conjunct2, THEN conjunct2, THEN conjunct2, THEN conjunct2, THEN conjunct2, THEN conjunct2, THEN conjunct2, THEN conjunct2, THEN conjunct2, THEN conjunct2, THEN conjunct2, THEN conjunct1, THEN mp, OF a1])
  have b2: "question_choices demo_env ''m'' 1024 1 (demo_question\<lparr>category := None\<rparr>) (1024, 0)
     = Inl (KeyError ''category'')"
    by (rule th2 [THEN conjunct2, THEN conjunct2, THEN conjunct2, THEN conjunct2, THEN conjunct2, THEN conjunct2, THEN conjunct1, THEN mp, OF b1])
  have c4: "run_turn valerr_env 1024 0 demo_question ''a'' (demo_conv, [], 1024, 0) = Inl ?ex"
    by (rule th3 [THEN conjunct2, THEN conjunct1, THEN mp])
       (intro conjI refl c1 c3 disjI1 c2)
  have d: "(case get_model_answers valerr_env ''path'' ''m'' [demo_question] ''out.jsonl'' 1024 1
           demo_state of Inl ex \<Rightarrow> Some ex | Inr st \<Rightarrow> None) = Some ?ex"
    by code_simp
  show ?thesis
    by (rule conjI [OF a1 conjI [OF a2 conjI [OF b1 conjI [OF b2 conjI [OF c1 conjI [OF c2
          conjI [OF c4 d]]]]]]])
qed

subsection \<open>Seeds\<close>


lemma run_turns_var_irrelevant:
  "map_sum id (\<lambda>(c, ts, v, r). (c, ts, r)) (run_turns e M temp q qss (c, ts, v, r)) =
   map_sum id (\<lambda>(c, ts, v, r). (c, ts, r)) (run_turns e M temp q qss (c, ts, v', r))"
proof (cases qss)
  case Nil
  then show ?thesis by simp
next
  case (Cons qs rest)
  have "run_turn e M temp q qs (c, ts, v, r) = run_turn e M temp q qs (c, ts, v', r)"
    by (rule run_turn_var_irrelevant)
  then show ?thesis unfolding Cons by simp
qed

lemma run_choice_seeded:
  "map_sum id (\<lambda>(ch, v, r). (ch, r)) (run_choice e mid M temp q i (choices, v, r)) =
   map_sum id (\<lambda>(ch, v, r). (ch, r)) (run_choice e mid M temp q i (choices, v', r'))"
proof (cases "turns q")
  case None
  then show ?thesis by (simp add: run_choice_def)
next
  case (Some qss)
  let ?c = "get_conversation_template e mid"
  have eq: "map_sum id (\<lambda>(c, ts, v, r). (c, ts, r))
              (run_turns e M temp q qss (?c, [], v, manual_seed e i)) =
            map_sum id (\<lambda>(c, ts, v, r). (c, ts, r))
              (run_turns e M temp q qss (?c, [], v', manual_seed e i))"
    by (rule run_turns_var_irrelevant)
  show ?thesis
  proof (cases "run_turns e M temp q qss (?c, [], v, manual_seed e i)")
    case (Inl ex)
    with eq have "run_turns e M temp q qss (?c, [], v', manual_seed e i) = Inl ex"
      by (cases "run_turns e M temp q qss (?c, [], v', manual_seed e i)") auto
    with Inl Some show ?thesis by (simp add: run_choice_def)
  next
    case (Inr s)
    obtain c1 ts1 v1 r1 where s: "s = (c1, ts1, v1, r1)" by (cases s)
    with eq Inr obtain v1' where
      "run_turns e M temp q qss (?c, [], v', manual_seed e i) = Inr (c1, ts1, v1', r1)"
      by (cases "run_turns e M temp q qss (?c, [], v', manual_seed e i)") auto
    with Inr s Some show ?thesis by (simp add: run_choice_def)
  qed
qed

lemma run_choices_seeded:
  "map_sum id fst (run_choices e mid M temp q is (choices, v, r)) =
   map_sum id fst (run_choices e mid M temp q is (choices, v', r'))"
proof (induction "is" arbitrary: choices v r v' r')
  case Nil
  then show ?case by simp
next
  case (Cons i "is")
  have eq: "map_sum id (\<lambda>(ch, v, r). (ch, r)) (run_choice e mid M temp q i (choices, v, r)) =
            map_sum id (\<lambda>(ch, v, r). (ch, r)) (run_choice e mid M temp q i (choices, v', r'))"
    by (rule run_choice_seeded)
  show ?case
  proof (cases "run_choice e mid M temp q i (choices, v, r)")
    case (Inl ex)
    with eq have "run_choice e mid M temp q i (choices, v', r') = Inl ex"
      by (cases "run_choice e mid M temp q i (choices, v', r')") auto
    with Inl show ?thesis by simp
  next
    case (Inr s)
    obtain ch1 v1 r1 where s: "s = (ch1, v1, r1)" by (cases s)
    with eq Inr obtain v1' where
      o: "run_choice e mid M temp q i (choices, v', r') = Inr (ch1, v1', r1)"
      by (cases "run_choice e mid M temp q i (choices, v', r')") auto
    from Cons.IH [of ch1 v1 r1 v1' r1] Inr s o show ?thesis by simp
  qed
qed

lemma question_choices_seeded:
  "map_sum id fst (question_choices e mid M n q (v, r)) =
   map_sum id fst (question_choices e mid M n q (v', r'))"
proof (cases "category q")
  case None
  then show ?thesis by (simp add: question_choices_def)
next
  case (Some ca)
  then show ?thesis
    using run_choices_seeded [of e mid M _ q "choice_indices n" "[]" v r v' r']
    by (simp add: question_choices_def)
qed

lemma run_question_seeded:
  assumes "outside st = outside st2"
  shows "map_sum id (\<lambda>(s, v). outside s) (run_question e mid f M n q (st, v)) =
         map_sum id (\<lambda>(s, v). outside s) (run_question e mid f M n q (st2, v2))"
proof -
  have eq: "map_sum id fst (question_choices e mid M n q (v, rng st)) =
            map_sum id fst (question_choices e mid M n q (v2, rng st2))"
    by (rule question_choices_seeded)
  have o: "files st = files st2" "uuid_calls st = uuid_calls st2" "time_calls st = time_calls st2"
    using assms by (simp_all add: outside_def)
  show ?thesis
  proof (cases "question_choices e mid M n q (v, rng st)")
    case (Inl ex)
    with eq have "question_choices e mid M n q (v2, rng st2) = Inl ex"
      by (cases "question_choices e mid M n q (v2, rng st2)") auto
    with Inl show ?thesis by (simp add: run_question_def)
  next
    case (Inr s)
    obtain ch v1 r1 where s: "s = (ch, v1, r1)" by (cases s)
    with eq Inr obtain v1' r1' where
      "question_choices e mid M n q (v2, rng st2) = Inr (ch, v1', r1')"
      by (cases "question_choices e mid M n q (v2, rng st2)") auto
    with Inr s o show ?thesis
      by (simp add: run_question_def dump_answer_def outside_def split: option.splits)
  qed
qed

lemma run_questions_seeded:
  assumes "outside st = outside st2"
  shows "map_sum id (\<lambda>(s, v). outside s) (run_questions e mid f M n qs (st, v)) =
         map_sum id (\<lambda>(s, v). outside s) (run_questions e mid f M n qs (st2, v2))"
  using assms
proof (induction qs arbitrary: st v st2 v2)
  case Nil
  then show ?case by simp
next
  case (Cons q qs)
  have eq: "map_sum id (\<lambda>(s, v). outside s) (run_question e mid f M n q (st, v)) =
            map_sum id (\<lambda>(s, v). outside s) (run_question e mid f M n q (st2, v2))"
    using Cons.prems by (rule run_question_seeded)
  show ?case
  proof (cases "run_question e mid f M n q (st, v)")
    case (Inl ex)
    with eq have "run_question e mid f M n q (st2, v2) = Inl ex"
      by (cases "run_question e mid f M n q (st2, v2)") auto
    with Inl show ?thesis by simp
  next
    case (Inr s)
    obtain s1 v1 where s: "s = (s1, v1)" by (cases s)
    with eq Inr obtain s1' v1' where
      o: "run_question e mid f M n q (st2, v2) = Inr (s1', v1')" "outside s1 = outside s1'"
      by (cases "run_question e mid f M n q (st2, v2)") auto
    from Cons.IH [OF o(2), of v1 v1'] Inr s o(1) show ?thesis by simp
  qed
qed

lemma get_model_answers_seeded:
  assumes "outside st = outside st2"
  shows "map_sum id outside (get_model_answers e mp mid qs f M n st) =
         map_sum id outside (get_model_answers e mp mid qs f M n st2)"
proof (cases "load_model e mp")
  case (Some ex)
  then show ?thesis by (simp add: get_model_answers_def)
next
  case None
  have eq: "map_sum id (\<lambda>(s, v). outside s) (run_questions e mid f M n qs (st, M)) =
            map_sum id (\<lambda>(s, v). outside s) (run_questions e mid f M n qs (st2, M))"
    using assms by (rule run_questions_seeded)
  show ?thesis
  proof (cases "run_questions e mid f M n qs (st, M)")
    case (Inl ex)
    with eq have "run_questions e mid f M n qs (st2, M) = Inl ex"
      by (cases "run_questions e mid f M n qs (st2, M)") auto
    with Inl None show ?thesis by (simp add: get_model_answers_def)
  next
    case (Inr s)
    obtain s1 v1 where s: "s = (s1, v1)" by (cases s)
    with eq Inr obtain s1' v1' where
      "run_questions e mid f M n qs (st2, M) = Inr (s1', v1')" "outside s1 = outside s1'"
      by (cases "run_questions e mid f M n qs (st2, M)") auto
    with Inr s None show ?thesis by (simp add: get_model_answers_def)
  qed
qed




text \<open>
  C7: the turns of the choice with index \<open>i\<close> are generated from the generator state
  \<open>manual_seed i\<close> and a fresh conversation, whatever the generator state was before.
  So the choices of a question do not depend on the generator state (or the value of
  \<open>max_new_token\<close>) at the start: two runs with the same libraries, model id,
  questions and number of choices give the same choices, or fail with the same
  exception, and a whole run leaves the same files whatever the generator state was at
  its start.
\<close>

theorem seeded_choices_deterministic:
  "run_choice e mid M temp q i (choices, v, r) =
     (case turns q of
        None \<Rightarrow> Inl (KeyError ''turns'')
      | Some qss \<Rightarrow>
          (case run_turns e M temp q qss
                  (get_conversation_template e mid, [], v, manual_seed e i) of
             Inl ex \<Rightarrow> Inl ex
           | Inr (c', ts, v', r') \<Rightarrow>
               Inr (choices @ [JObj [(''index'', JInt i), (''turns'', JList (map JStr ts))]],
                    v', r'))) \<and>
   map_sum id (\<lambda>(ch, v, r). (ch, r)) (run_choice e mid M temp q i (choices, v, r)) =
     map_sum id (\<lambda>(ch, v, r). (ch, r)) (run_choice e mid M temp q i (choices, v2, r2)) \<and>
   map_sum id fst (question_choices e mid M n q (v, r)) =
     map_sum id fst (question_choices e mid M n q (v2, r2)) \<and>
   map_sum id outside (get_model_answers e model_path mid questions f M n (st\<lparr>rng := r\<rparr>)) =
     map_sum id outside (get_model_answers e model_path mid questions f M n (st\<lparr>rng := r2\<rparr>))"
proof (intro conjI)
  show "run_choice e mid M temp q i (choices, v, r) =
     (case turns q of
        None \<Rightarrow> Inl (KeyError ''turns'')
      | Some qss \<Rightarrow>
          (case run_turns e M temp q qss
                  (get_conversation_template e mid, [], v, manual_seed e i) of
             Inl ex \<Rightarrow> Inl ex
           | Inr (c', ts, v', r') \<Rightarrow>
               Inr (choices @ [JObj [(''index'', JInt i), (''turns'', JList (map JStr ts))]],
                    v', r')))"
    by (simp add: run_choice_def)
  show "map_sum id (\<lambda>(ch, v, r). (ch, r)) (run_choice e mid M temp q i (choices, v, r)) =
     map_sum id (\<lambda>(ch, v, r). (ch, r)) (run_choice e mid M temp q i (choices, v2, r2))"
    by (rule run_choice_seeded)
  show "map_sum id fst (question_choices e mid M n q (v, r)) =
     map_sum id fst (question_choices e mid M n q (v2, r2))"
    by (rule question_choices_seeded)
  show "map_sum id outside (get_model_answers e model_path mid questions f M n (st\<lparr>rng := r\<rparr>)) =
     map_sum id outside (get_model_answers e model_path mid questions f M n (st\<lparr>rng := r2\<rparr>))"
    by (rule get_model_answers_seeded) (simp add: outside_def)
qed


theorem seeded_choices_deterministic_witness:
  "map_sum id fst (question_choices demo_env ''m'' 1024 2 demo_question (1024, 99)) =
     Inr [JObj [(''index'', JInt 0), (''turns'', JList [JStr ''Hi'', JStr ''Ii''])],
          JObj [(''index'', JInt 1), (''turns'', JList [JStr ''Ii'', JStr ''Ji''])]] \<and>
   map_sum id fst (question_choices demo_env ''m'' 1024 2 demo_question (7, 3)) =
     Inr [JObj [(''index'', JInt 0), (''turns'', JList [JStr ''Hi'', JStr ''Ii''])],
          JObj [(''index'', JInt 1), (''turns'', JList [JStr ''Ii'', JStr ''Ji''])]]"
proof -
  have a: "map_sum id fst (question_choices demo_env ''m'' 1024 2 demo_question (1024, 99)) =
     Inr [JObj [(''index'', JInt 0), (''turns'', JList [JStr ''Hi'', JStr ''Ii''])],
          JObj [(''index'', JInt 1), (''turns'', JList [JStr ''Ii'', JStr ''Ji''])]]"
    by code_simp
  have "map_sum id fst (question_choices demo_env ''m'' 1024 2 demo_question (7, 3)) =
        map_sum id fst (question_choices demo_env ''m'' 1024 2 demo_question (1024, 99))"
    by (rule seeded_choices_deterministic
          [where e = demo_env and mid = "''m''" and M = 1024 and n = 2 and q = demo_question
             and v = 7 and r = 3 and ?v2.0 = 1024 and ?r2.0 = 99,
           THEN conjunct2, THEN conjunct2, THEN conjunct1])
  with a show ?thesis by simp
qed

subsection \<open>The answer records\<close>





















end
